theory Spec2Isabelle
  imports Complex_Main "HOL-Library.AList" "HOL-Library.Sublist"
begin

section \<open>JavaScript numbers\<close>

text \<open>
  The library computes with JavaScript numbers. A finite number is modelled by a real
  (rounding of the binary representation is not modelled, and the two zeros are one);
  the three non-finite values are kept apart, because the code divides by a height
  that can be zero and the result then flows through \<open>Math.min\<close>, \<open>Math.max\<close>,
  \<open>+\<close>, \<open>-\<close> and \<open><\<close>.
\<close>

datatype jsnum = Fin real | PosInf | NegInf | NaN

text \<open>\<open>a / b\<close> for two finite operands.\<close>

definition jsdiv :: "real \<Rightarrow> real \<Rightarrow> jsnum" where
  "jsdiv a b =
     (if b = 0 then (if a = 0 then NaN else if 0 < a then PosInf else NegInf)
      else Fin (a / b))"

fun jsneg :: "jsnum \<Rightarrow> jsnum" where
  "jsneg (Fin a) = Fin (- a)"
| "jsneg PosInf = NegInf"
| "jsneg NegInf = PosInf"
| "jsneg NaN = NaN"

fun jsadd :: "jsnum \<Rightarrow> jsnum \<Rightarrow> jsnum" where
  "jsadd NaN _ = NaN"
| "jsadd _ NaN = NaN"
| "jsadd (Fin a) (Fin b) = Fin (a + b)"
| "jsadd (Fin a) PosInf = PosInf"
| "jsadd (Fin a) NegInf = NegInf"
| "jsadd PosInf (Fin b) = PosInf"
| "jsadd NegInf (Fin b) = NegInf"
| "jsadd PosInf PosInf = PosInf"
| "jsadd NegInf NegInf = NegInf"
| "jsadd PosInf NegInf = NaN"
| "jsadd NegInf PosInf = NaN"

definition jssub :: "jsnum \<Rightarrow> jsnum \<Rightarrow> jsnum" where
  "jssub a b = jsadd a (jsneg b)"

text \<open>\<open>a * k\<close> for a finite, positive \<open>k\<close> (the code only multiplies by 100).\<close>

fun jsscale :: "jsnum \<Rightarrow> real \<Rightarrow> jsnum" where
  "jsscale (Fin a) k = Fin (a * k)"
| "jsscale PosInf k = PosInf"
| "jsscale NegInf k = NegInf"
| "jsscale NaN k = NaN"

text \<open>\<open>a < b\<close>: false as soon as one operand is \<open>NaN\<close>.\<close>

fun jslt :: "jsnum \<Rightarrow> jsnum \<Rightarrow> bool" where
  "jslt NaN _ = False"
| "jslt _ NaN = False"
| "jslt (Fin a) (Fin b) = (a < b)"
| "jslt (Fin a) PosInf = True"
| "jslt (Fin a) NegInf = False"
| "jslt PosInf _ = False"
| "jslt NegInf NegInf = False"
| "jslt NegInf _ = True"

text \<open>\<open>Math.min\<close> and \<open>Math.max\<close> of two numbers: \<open>NaN\<close> if one of them is.\<close>

definition Math_min :: "jsnum \<Rightarrow> jsnum \<Rightarrow> jsnum" where
  "Math_min a b = (if a = NaN \<or> b = NaN then NaN else if jslt b a then b else a)"

definition Math_max :: "jsnum \<Rightarrow> jsnum \<Rightarrow> jsnum" where
  "Math_max a b = (if a = NaN \<or> b = NaN then NaN else if jslt a b then b else a)"

text \<open>\<open>Math.round\<close> of a finite number: the nearest integer, a tie going up.\<close>

definition Math_round :: "real \<Rightarrow> real" where
  "Math_round x = of_int \<lfloor>x + 1 / 2\<rfloor>"

text \<open>
  \<open>+(x.toFixed(2))\<close>: the number written with two decimals (the nearest multiple of
  1/100, a tie going away from zero on the magnitude) and read back. Numbers of
  magnitude at least \<open>10^21\<close> and the non-finite ones are printed by \<open>toString\<close> and
  come back as they were.
\<close>

fun toFixed2 :: "jsnum \<Rightarrow> jsnum" where
  "toFixed2 (Fin r) =
     (if 10 ^ 21 \<le> \<bar>r\<bar> then Fin r
      else if r < 0 then Fin (- (of_int \<lfloor>(- r) * 100 + 1 / 2\<rfloor> / 100))
      else Fin (of_int \<lfloor>r * 100 + 1 / 2\<rfloor> / 100))"
| "toFixed2 x = x"

text \<open>Truthiness of a number: \<open>0\<close> and \<open>NaN\<close> are falsy.\<close>

definition truthy :: "jsnum \<Rightarrow> bool" where
  "truthy x = (x \<noteq> Fin 0 \<and> x \<noteq> NaN)"

text \<open>\<open>x || d\<close> for an optional number and for an optional string.\<close>

definition num_or :: "jsnum option \<Rightarrow> jsnum \<Rightarrow> jsnum" where
  "num_or x d = (case x of None \<Rightarrow> d | Some v \<Rightarrow> if truthy v then v else d)"

definition str_or :: "string option \<Rightarrow> string \<Rightarrow> string" where
  "str_or x d = (case x of None \<Rightarrow> d | Some v \<Rightarrow> if v = [] then d else v)"

section \<open>The rule registry\<close>

text \<open>
  A JavaScript \<open>Map\<close> keeps its keys in insertion order; it is an association list with
  distinct keys. \<open>get\<close> is \<open>map_of\<close>, \<open>set\<close> is \<open>AList.update\<close> (the position of an
  existing key is kept, a new key goes to the end), \<open>delete\<close> is \<open>AList.delete\<close>.
\<close>

type_synonym ('k, 'v) jsmap = "('k \<times> 'v) list"

record SectionVisibilitySettings =
  sv_id :: string
  sv_section :: string
  sv_selector :: string
  sv_scrollDepth :: jsnum
  sv_viewTime :: jsnum
  sv_customEvent :: string

text \<open>The argument of \<open>addSectionVisibility\<close>: every field may be missing.\<close>

record PartialSettings =
  p_selector :: "string option"
  p_scrollDepth :: "jsnum option"
  p_viewTime :: "jsnum option"
  p_customEvent :: "string option"

record registry =
  sectionVisibility :: "(string, SectionVisibilitySettings) jsmap"
  selectorVisibilityMap :: "(string, SectionVisibilitySettings list) jsmap"

definition claim :: "jsnum \<Rightarrow> jsnum \<Rightarrow> jsnum \<Rightarrow> jsnum" where
  "claim v lo hi = Math_min hi (Math_max lo v)"

definition defaultSelector :: "string \<Rightarrow> string" where
  "defaultSelector section = ''[data-internal-view='' @ [CHR 0x22] @ section @ [CHR 0x22] @ '']''"

text \<open>The rule that \<open>addSectionVisibility\<close> builds; \<open>uuid\<close> is what \<open>randomUUID\<close> returned.\<close>

definition newSettings :: "string \<Rightarrow> string \<Rightarrow> PartialSettings \<Rightarrow> SectionVisibilitySettings" where
  "newSettings uuid section settings =
     \<lparr> sv_id = uuid,
       sv_section = section,
       sv_selector = str_or (p_selector settings) (defaultSelector section),
       sv_scrollDepth = claim (num_or (p_scrollDepth settings) (Fin 70)) (Fin 0) (Fin 100),
       sv_viewTime = Math_max (num_or (p_viewTime settings) (Fin 3000)) (Fin 0),
       sv_customEvent = str_or (p_customEvent settings) [] \<rparr>"

definition rulesFor :: "'a registry_scheme \<Rightarrow> string \<Rightarrow> SectionVisibilitySettings list" where
  "rulesFor g selector = (case map_of (selectorVisibilityMap g) selector of None \<Rightarrow> [] | Some l \<Rightarrow> l)"

definition addSectionVisibility ::
  "string \<Rightarrow> string \<Rightarrow> PartialSettings \<Rightarrow> 'a registry_scheme \<Rightarrow> string \<times> 'a registry_scheme" where
  "addSectionVisibility uuid section settings g =
     (let st = newSettings uuid section settings;
          selector = sv_selector st;
          selectorSettings = rulesFor g selector @ [st]
      in (uuid,
          g\<lparr> sectionVisibility := AList.update uuid st (sectionVisibility g),
             selectorVisibilityMap := AList.update selector selectorSettings (selectorVisibilityMap g) \<rparr>))"

definition dropSectionVisibility :: "string \<Rightarrow> 'a registry_scheme \<Rightarrow> 'a registry_scheme" where
  "dropSectionVisibility i g =
     (case map_of (sectionVisibility g) i of
        None \<Rightarrow> g
      | Some settings \<Rightarrow>
          (let selector = sv_selector settings;
               g1 = g\<lparr> sectionVisibility := AList.delete i (sectionVisibility g) \<rparr>
           in case map_of (selectorVisibilityMap g) selector of
                None \<Rightarrow> g1
              | Some oldSelectorSettings \<Rightarrow>
                  if length oldSelectorSettings \<le> 0 then g1
                  else g1\<lparr> selectorVisibilityMap :=
                             AList.update selector (filter (\<lambda>s. sv_id s \<noteq> i) oldSelectorSettings)
                               (selectorVisibilityMap g) \<rparr>))"

text \<open>\<open>getRegisteredSelectors\<close>: the keys of the selector index, in insertion order.\<close>

definition getRegisteredSelectors :: "'a registry_scheme \<Rightarrow> string list" where
  "getRegisteredSelectors g = map fst (selectorVisibilityMap g)"

text \<open>The event name both firing paths send for a rule.\<close>

definition eventName :: "SectionVisibilitySettings \<Rightarrow> string" where
  "eventName setting =
     (if sv_customEvent setting \<noteq> [] then sv_customEvent setting else ''view_'' @ sv_section setting)"

section \<open>Tracked state, events and the page\<close>

type_synonym elem = nat

text \<open>What \<open>getBoundingClientRect\<close> returns, as far as the code reads it.\<close>

record rect =
  r_top :: real
  r_bottom :: real
  r_height :: real

record SectionTrackedData =
  td_start :: int
  td_duration :: int
  td_minScrollDepth :: jsnum
  td_maxScrollDepth :: jsnum
  td_element :: elem
  td_selector :: string
  td_id :: string
  td_sentEventIds :: "string list option"

text \<open>
  The objects pushed on \<open>window.dataLayer\<close>: the section events
  \<open>{event, section, view_time, scroll_depth}\<close> and \<open>{event, duration}\<close>.
\<close>

datatype payload =
    SectionEvent (p_event: string) (p_section: string) (p_view_time: jsnum) (p_scroll_depth: jsnum)
  | DurationEvent (p_event: string) (p_duration: jsnum)

datatype listener = SendLastSection | HandleCloseTab

text \<open>
  The instance of \<open>VnsGaUtil\<close> with the part of the page it acts on: the data layer,
  the cookie jar, the registered listeners and observers, the pending timeouts (each
  holds the episode id and the rule its closure captured), the two attributes the
  engine writes on elements, and the \<open>ticking\<close> flag of the scroll debounce.
\<close>

record VnsGaUtil = registry +
  trackingId :: string
  sectionMap :: "(string, SectionTrackedData) jsmap"
  isVisibilityTrackingInitialized :: bool
  dataLayer :: "payload list option"
  cookies :: "(string, string) jsmap"
  beforeunload :: "listener list"
  scrollListeners :: nat
  resizeListeners :: nat
  intersectionObservers :: nat
  observed :: "elem set"
  mutationObservers :: nat
  timers :: "(string \<times> SectionVisibilitySettings) list"
  viewSelectorAttr :: "elem \<rightharpoonup> string"
  viewIdAttr :: "elem \<rightharpoonup> string"
  ticking :: bool

text \<open>\<open>window.dataLayer\<close> is replaced by an empty array when it is not an array.\<close>

definition sendInternalGAEvent :: "payload \<Rightarrow> VnsGaUtil \<Rightarrow> VnsGaUtil" where
  "sendInternalGAEvent e s =
     s\<lparr> dataLayer := Some ((case dataLayer s of None \<Rightarrow> [] | Some l \<Rightarrow> l) @ [e]) \<rparr>"

text \<open>\<open>x ?? []\<close> on the optional fired-rule list.\<close>

definition sentIdsOf :: "SectionTrackedData \<Rightarrow> string list" where
  "sentIdsOf sec = (case td_sentEventIds sec of None \<Rightarrow> [] | Some l \<Rightarrow> l)"

text \<open>\<open>getAttribute\<close> followed by the test \<open>!value\<close>: a missing or empty attribute.\<close>

definition attrOf :: "(elem \<rightharpoonup> string) \<Rightarrow> elem \<Rightarrow> string option" where
  "attrOf m e = (case m e of None \<Rightarrow> None | Some v \<Rightarrow> if v = [] then None else Some v)"

text \<open>
  \<open>ratioTop\<close>, computed the same way at entry and at every scroll sample:
  \<open>+((visibleTop / elementHeight) * 100).toFixed(2)\<close>. The quotient and the product are
  exact here, where the code rounds each to a binary64 number before \<open>toFixed\<close>: at a
  rounding tie the last digit can differ (top -23 and height 160 give 14.38 here and
  14.37 in the code). Division by a zero height, which no rounding affects, is as in
  the code.
\<close>

definition ratioTop :: "rect \<Rightarrow> jsnum" where
  "ratioTop r =
     (let elementTop = r_top r;
          elementHeight = r_height r;
          visibleTop = max 0 (- elementTop)
      in toFixed2 (jsscale (jsdiv visibleTop elementHeight) 100))"

section \<open>The intersection subsystem\<close>

text \<open>
  What the environment answers while one entry is handled: \<open>randomUUID()\<close>,
  \<open>getBoundingClientRect()\<close> of the target and \<open>Date.now()\<close>.
\<close>

record IntersectionObserverEntry =
  e_target :: elem
  e_isIntersecting :: bool
  e_intersectionRatio :: real
  e_randomUUID :: string
  e_rect :: rect
  e_now :: int

definition armTimers ::
  "string \<Rightarrow> SectionVisibilitySettings list \<Rightarrow> (string \<times> SectionVisibilitySettings) list" where
  "armTimers i settings = map (\<lambda>setting. (i, setting)) (filter (\<lambda>setting. jslt (Fin 0) (sv_viewTime setting)) settings)"

definition observerEntry :: "IntersectionObserverEntry \<Rightarrow> VnsGaUtil \<Rightarrow> VnsGaUtil" where
  "observerEntry entry s =
     (let node = e_target entry in
      case attrOf (viewSelectorAttr s) node of
        None \<Rightarrow> s
      | Some selector \<Rightarrow>
          if e_isIntersecting entry then
            (let i = e_randomUUID entry;
                 rt = ratioTop (e_rect entry);
                 tracked = \<lparr> td_start = e_now entry,
                             td_duration = 0,
                             td_minScrollDepth = rt,
                             td_maxScrollDepth =
                               Math_min (jsadd rt (Fin (e_intersectionRatio entry * 100))) (Fin 100),
                             td_element = node,
                             td_selector = selector,
                             td_id = i,
                             td_sentEventIds = None \<rparr>
             in s\<lparr> viewIdAttr := (viewIdAttr s)(node \<mapsto> i),
                   sectionMap := AList.update i tracked (sectionMap s),
                   timers := timers s @ armTimers i (rulesFor s selector) \<rparr>)
          else
            (case attrOf (viewIdAttr s) node of
               None \<Rightarrow> s
             | Some outId \<Rightarrow>
                 (case map_of (sectionMap s) outId of
                    None \<Rightarrow> s
                  | Some tracked \<Rightarrow>
                      (let duration = e_now entry - td_start tracked;
                           scrollDepth = jssub (td_maxScrollDepth tracked) (td_minScrollDepth tracked);
                           s1 = sendInternalGAEvent
                                  (SectionEvent ''section_view'' selector (Fin (of_int duration)) scrollDepth) s
                       in s1\<lparr> sectionMap := AList.delete outId (sectionMap s1) \<rparr>))))"

definition observerCallback :: "IntersectionObserverEntry list \<Rightarrow> VnsGaUtil \<Rightarrow> VnsGaUtil" where
  "observerCallback entries s = fold observerEntry entries s"

text \<open>The body of the per-rule timeout armed at entry for episode \<open>i\<close> and rule \<open>setting\<close>.\<close>

definition timerCallback :: "string \<Rightarrow> SectionVisibilitySettings \<Rightarrow> VnsGaUtil \<Rightarrow> VnsGaUtil" where
  "timerCallback i setting s =
     (case map_of (sectionMap s) i of
        None \<Rightarrow> s
      | Some newSection \<Rightarrow>
          (let sentIds = sentIdsOf newSection in
           if sv_id setting \<in> set sentIds then s
           else
             (let scrollDepth = jssub (td_maxScrollDepth newSection) (td_minScrollDepth newSection) in
              if jslt scrollDepth (sv_scrollDepth setting) then s
              else
                (let s1 = sendInternalGAEvent
                            (SectionEvent (eventName setting) (sv_section setting)
                               (sv_viewTime setting) scrollDepth) s
                 in s1\<lparr> sectionMap :=
                          AList.update i (newSection\<lparr> td_sentEventIds := Some (sentIds @ [sv_id setting]) \<rparr>)
                            (sectionMap s1) \<rparr>))))"

text \<open>The \<open>n\<close>-th pending timeout expires: it leaves the pending list and its callback runs.\<close>

definition timerFire :: "nat \<Rightarrow> VnsGaUtil \<Rightarrow> VnsGaUtil" where
  "timerFire n s =
     (if n < length (timers s)
      then (case timers s ! n of
              (i, setting) \<Rightarrow> timerCallback i setting (s\<lparr> timers := take n (timers s) @ drop (Suc n) (timers s) \<rparr>))
      else s)"

text \<open>\<open>sendLastSection\<close>, the \<open>beforeunload\<close> flush of the episodes still live.\<close>

definition sendLastSection :: "int \<Rightarrow> VnsGaUtil \<Rightarrow> VnsGaUtil" where
  "sendLastSection now s =
     fold (\<lambda>section.
             sendInternalGAEvent
               (SectionEvent ''section_view'' (td_selector section)
                  (Fin (of_int (now - td_start section)))
                  (jssub (td_maxScrollDepth section) (td_minScrollDepth section))))
          (map snd (sectionMap s)) s"

section \<open>The scroll-sampling subsystem\<close>

text \<open>
  The part of a sample guarded against a zero height: \<open>visibleRatio\<close>. As in
  \<open>ratioTop\<close> the quotient and the product are exact, so that \<open>Math.round\<close> can differ
  by one from the code at a tie (23 of 40 pixels visible give 58 here and 57 in the
  code).
\<close>

definition visibleRatio :: "rect \<Rightarrow> real \<Rightarrow> real" where
  "visibleRatio r viewportHeight =
     (let elementTop = r_top r;
          elementBottom = r_bottom r;
          elementHeight = r_height r;
          visibleTop = max 0 (- elementTop)
      in if elementBottom < 0 then 0
         else if viewportHeight < elementTop then 0
         else
           (let visibleBottom = min elementHeight (viewportHeight - elementTop);
                visibleHeight = max 0 (visibleBottom - visibleTop)
            in if 0 < elementHeight then Math_round (visibleHeight / elementHeight * 100) else 0))"

text \<open>\<open>depth = Math.min(ratioTop + visibleRatio, 100)\<close>, the depth of one sample.\<close>

definition sampleDepth :: "rect \<Rightarrow> real \<Rightarrow> jsnum" where
  "sampleDepth r viewportHeight =
     Math_min (jsadd (ratioTop r) (Fin (visibleRatio r viewportHeight))) (Fin 100)"

text \<open>
  The loop over the rules of the selector. \<open>sentEventIds\<close> is read once before the loop;
  the test and the new value of \<open>_sentEventIds\<close> both use that list.
\<close>

fun fireRules ::
  "SectionVisibilitySettings list \<Rightarrow> string list \<Rightarrow> jsnum \<Rightarrow> int \<Rightarrow>
   SectionTrackedData \<times> payload list \<Rightarrow> SectionTrackedData \<times> payload list" where
  "fireRules [] sentEventIds sectionView duration acc = acc"
| "fireRules (setting # settings) sentEventIds sectionView duration (section, out) =
     (if sv_id setting \<in> set sentEventIds then
        fireRules settings sentEventIds sectionView duration (section, out)
      else if jslt sectionView (sv_scrollDepth setting) then
        fireRules settings sentEventIds sectionView duration (section, out)
      else if jslt (Fin (of_int duration)) (sv_viewTime setting) then
        fireRules settings sentEventIds sectionView duration (section, out)
      else
        fireRules settings sentEventIds sectionView duration
          (section\<lparr> td_sentEventIds := Some (sentEventIds @ [sv_id setting]) \<rparr>,
           out @ [SectionEvent (eventName setting) (sv_section setting)
                    (Fin (of_int duration)) sectionView]))"

text \<open>
  What the environment answers during one call of \<open>handleElementScroll\<close>: the element's
  rectangle, \<open>window.innerHeight\<close> and \<open>Date.now()\<close>.
\<close>

record sample =
  f_rect :: rect
  f_innerHeight :: real
  f_now :: int

text \<open>
  \<open>handleElementScroll\<close> mutates the tracked object it is given, which is the object
  held by \<open>sectionMap\<close> under its own id: the widened bounds reach the map whether or
  not a rule fires.
\<close>

definition handleElementScroll :: "sample \<Rightarrow> SectionTrackedData \<Rightarrow> VnsGaUtil \<Rightarrow> VnsGaUtil" where
  "handleElementScroll env section s =
     (case attrOf (viewSelectorAttr s) (td_element section) of
        None \<Rightarrow> s
      | Some selector \<Rightarrow>
          (let rt = ratioTop (f_rect env);
               depth = sampleDepth (f_rect env) (f_innerHeight env);
               section1 = section\<lparr> td_minScrollDepth := Math_min (td_minScrollDepth section) rt,
                                   td_maxScrollDepth := Math_max (td_maxScrollDepth section) depth \<rparr>;
               duration = f_now env - td_start section1;
               sectionView = jssub (td_maxScrollDepth section1) (td_minScrollDepth section1);
               settings = rulesFor s selector;
               sentEventIds = sentIdsOf section1;
               res = fireRules settings sentEventIds sectionView duration (section1, [])
           in (fold sendInternalGAEvent (snd res) s)
                \<lparr> sectionMap := AList.update (td_id section) (fst res) (sectionMap s) \<rparr>))"

text \<open>The debounce: \<open>onScroll\<close> requests a frame unless one is pending.\<close>

definition onScroll :: "VnsGaUtil \<Rightarrow> VnsGaUtil" where
  "onScroll s = (if \<not> ticking s then s\<lparr> ticking := True \<rparr> else s)"

text \<open>
  The frame callback: every section tracked when the frame starts is sampled, in the
  order of the map; \<open>env\<close> gives the environment's answers for each episode id.
\<close>

definition frameCallback :: "(string \<Rightarrow> sample) \<Rightarrow> VnsGaUtil \<Rightarrow> VnsGaUtil" where
  "frameCallback env s =
     fold (\<lambda>k t. case map_of (sectionMap t) k of
                    None \<Rightarrow> t
                  | Some section \<Rightarrow> handleElementScroll (env k) section t)
          (map fst (sectionMap s)) (s\<lparr> ticking := False \<rparr>)"

section \<open>Initialisation and element discovery\<close>

definition initSectionVisibilityTracking :: "VnsGaUtil \<Rightarrow> VnsGaUtil" where
  "initSectionVisibilityTracking s =
     s\<lparr> intersectionObservers := Suc (intersectionObservers s),
        observed := {},
        beforeunload := beforeunload s @ [SendLastSection] \<rparr>"

definition initScrollDepthTracking :: "VnsGaUtil \<Rightarrow> VnsGaUtil" where
  "initScrollDepthTracking s =
     onScroll (s\<lparr> scrollListeners := Suc (scrollListeners s),
                  resizeListeners := Suc (resizeListeners s) \<rparr>)"

definition initVisibilityTracking :: "VnsGaUtil \<Rightarrow> VnsGaUtil" where
  "initVisibilityTracking s =
     (if isVisibilityTrackingInitialized s then s
      else (initScrollDepthTracking (initSectionVisibilityTracking s))
             \<lparr> isVisibilityTrackingInitialized := True \<rparr>)"

definition trackSectionView :: "elem \<Rightarrow> string \<Rightarrow> VnsGaUtil \<Rightarrow> VnsGaUtil" where
  "trackSectionView section seletionString s =
     s\<lparr> viewSelectorAttr := (viewSelectorAttr s)(section \<mapsto> seletionString),
        observed := insert section (observed s) \<rparr>"

text \<open>The initial scan; \<open>qsa\<close> is \<open>document.querySelectorAll\<close> on the page as it is.\<close>

definition initialScan :: "(string \<Rightarrow> elem list) \<Rightarrow> VnsGaUtil \<Rightarrow> VnsGaUtil" where
  "initialScan qsa s =
     fold (\<lambda>selector t. fold (\<lambda>section. trackSectionView section selector) (qsa selector) t)
          (getRegisteredSelectors s) s"

definition trackSectionVisibility :: "(string \<Rightarrow> elem list) \<Rightarrow> VnsGaUtil \<Rightarrow> VnsGaUtil" where
  "trackSectionVisibility qsa s =
     (let s1 = initVisibilityTracking s;
          s2 = s1\<lparr> mutationObservers := Suc (mutationObservers s1) \<rparr>
      in initialScan qsa s2)"

text \<open>
  The callback of one mutation observer for the added element nodes: \<open>matches\<close> is
  \<open>node.matches\<close>, \<open>inside\<close> is \<open>node.querySelectorAll\<close>. Every observer created by
  \<open>trackSectionVisibility\<close> runs it.
\<close>

definition mutationCallback ::
  "(elem \<Rightarrow> string \<Rightarrow> bool) \<Rightarrow> (elem \<Rightarrow> string \<Rightarrow> elem list) \<Rightarrow> elem list \<Rightarrow> VnsGaUtil \<Rightarrow> VnsGaUtil" where
  "mutationCallback matches inside addedNodes s =
     fold (\<lambda>node t.
             fold (\<lambda>selector u.
                     fold (\<lambda>section. trackSectionView section selector) (inside node selector)
                       (if matches node selector then trackSectionView node selector u else u))
                  (getRegisteredSelectors s) t)
          addedNodes s"

definition nodesAdded ::
  "(elem \<Rightarrow> string \<Rightarrow> bool) \<Rightarrow> (elem \<Rightarrow> string \<Rightarrow> elem list) \<Rightarrow> elem list \<Rightarrow> VnsGaUtil \<Rightarrow> VnsGaUtil" where
  "nodesAdded matches inside addedNodes s =
     ((mutationCallback matches inside addedNodes) ^^ mutationObservers s) s"

section \<open>Cookies and the return visit\<close>

text \<open>\<open>String.prototype.split\<close> with a non-empty separator.\<close>

function js_split :: "string \<Rightarrow> string \<Rightarrow> string \<Rightarrow> string list" where
  "js_split sep acc [] = [rev acc]"
| "js_split sep acc (c # cs) =
     (if sep \<noteq> [] \<and> prefix sep (c # cs)
      then rev acc # js_split sep [] (drop (length sep) (c # cs))
      else js_split sep (c # acc) cs)"
  by pat_completeness auto
termination
  by (relation "measure (\<lambda>(sep, acc, s). length s)") auto

text \<open>
  The getter of \<open>document.cookie\<close>: the jar's pairs as \<open>name=value\<close>, joined by \<open>; \<close>.
\<close>

fun join :: "string \<Rightarrow> string list \<Rightarrow> string" where
  "join sep [] = []"
| "join sep [x] = x"
| "join sep (x # y # ys) = x @ sep @ join sep (y # ys)"

definition document_cookie :: "(string, string) jsmap \<Rightarrow> string" where
  "document_cookie jar = join ''; '' (map (\<lambda>(n, v). n @ ''='' @ v) jar)"

definition readCookie :: "string \<Rightarrow> VnsGaUtil \<Rightarrow> string option" where
  "readCookie name s =
     (let v = ''; '' @ document_cookie (cookies s);
          parts = js_split (''; '' @ name @ ''='') [] v
      in if length parts = 2
         then (case js_split '';'' [] (last parts) of [] \<Rightarrow> None | x # _ \<Rightarrow> Some x)
         else None)"

text \<open>
  \<open>#_writeCookie\<close> assigns \<open>name=value; expires=...; path=...; domain=...; sameSite=...\<close>
  to \<open>document.cookie\<close>; the page's jar then holds \<open>value\<close> under \<open>name\<close>. (The caller
  passes an expiry a year ahead and the page's own host name.)
\<close>

definition writeCookie :: "string \<Rightarrow> string \<Rightarrow> VnsGaUtil \<Rightarrow> VnsGaUtil" where
  "writeCookie name v s = s\<lparr> cookies := AList.update name v (cookies s) \<rparr>"

text \<open>\<open>Date.now().toString()\<close>: the decimal digits of an integer.\<close>

function digits :: "nat \<Rightarrow> string" where
  "digits n = (if n < 10 then [''0123456789'' ! n] else digits (n div 10) @ [''0123456789'' ! (n mod 10)])"
  by pat_completeness auto
termination
  by (relation "measure id") auto

declare digits.simps [simp del]

definition toString :: "int \<Rightarrow> string" where
  "toString i = (if i < 0 then ''-'' @ digits (nat (- i)) else digits (nat i))"

definition sessionKey :: "VnsGaUtil \<Rightarrow> string" where
  "sessionKey s = ''__internal_ga_session_'' @ trackingId s @ ''__''"

definition handleCloseTab :: "int \<Rightarrow> VnsGaUtil \<Rightarrow> VnsGaUtil" where
  "handleCloseTab now s = writeCookie (sessionKey s) (toString now) s"

text \<open>
  \<open>trackUserReturn\<close>; \<open>toNumber\<close> is the unary \<open>+\<close> on the cookie's string, \<open>now\<close> is
  \<open>Date.now()\<close>. The first branch is the \<open>return false\<close> of the source.
\<close>

definition trackUserReturn :: "(string \<Rightarrow> jsnum) \<Rightarrow> int \<Rightarrow> VnsGaUtil \<Rightarrow> VnsGaUtil" where
  "trackUserReturn toNumber now s =
     (case readCookie (sessionKey s) s of
        None \<Rightarrow> s
      | Some lastVisit \<Rightarrow>
          if lastVisit = [] then s
          else
            (let diff = jssub (Fin (of_int now)) (toNumber lastVisit);
                 s1 = sendInternalGAEvent (DurationEvent ''return_visit'' diff) s
             in s1\<lparr> beforeunload := beforeunload s1 @ [HandleCloseTab] \<rparr>))"

text \<open>The page is abandoned: every \<open>beforeunload\<close> listener runs, in registration order.\<close>

definition runListener :: "int \<Rightarrow> listener \<Rightarrow> VnsGaUtil \<Rightarrow> VnsGaUtil" where
  "runListener now l s = (case l of SendLastSection \<Rightarrow> sendLastSection now s | HandleCloseTab \<Rightarrow> handleCloseTab now s)"

definition pageAbandoned :: "int \<Rightarrow> VnsGaUtil \<Rightarrow> VnsGaUtil" where
  "pageAbandoned now s = fold (runListener now) (beforeunload s) s"

text \<open>
  A fresh instance on a page with the given cookie jar: the constructor only reads the
  tracking id from the \<open>GID\<close> parameter of the script's URL and keeps the empty id when
  there is none.
\<close>

definition newVnsGaUtil :: "string option \<Rightarrow> (string, string) jsmap \<Rightarrow> VnsGaUtil" where
  "newVnsGaUtil gid jar =
     \<lparr> sectionVisibility = [], selectorVisibilityMap = [],
       trackingId = (case gid of None \<Rightarrow> [] | Some t \<Rightarrow> t),
       sectionMap = [],
       isVisibilityTrackingInitialized = False,
       dataLayer = None,
       cookies = jar,
       beforeunload = [],
       scrollListeners = 0,
       resizeListeners = 0,
       intersectionObservers = 0,
       observed = {},
       mutationObservers = 0,
       timers = [],
       viewSelectorAttr = Map.empty,
       viewIdAttr = Map.empty,
       ticking = False \<rparr>"

section \<open>Registries built through the API\<close>

text \<open>
  What holds of a registry that started empty and was changed only by
  \<open>addSectionVisibility\<close> (with ids not yet in use) and \<open>dropSectionVisibility\<close>: no
  selector is empty, the rules of a list have distinct ids, every rule of a list is
  filed under its own selector and is the rule the id map holds for its id, and every
  rule of the id map is in the list of its selector.
\<close>

definition wf_registry :: "'a registry_scheme \<Rightarrow> bool" where
  "wf_registry g =
     ([] \<notin> set (getRegisteredSelectors g) \<and>
      (\<forall>sel. distinct (map sv_id (rulesFor g sel))) \<and>
      (\<forall>sel. \<forall>r \<in> set (rulesFor g sel).
           sv_selector r = sel \<and> map_of (sectionVisibility g) (sv_id r) = Some r) \<and>
      (\<forall>j r. map_of (sectionVisibility g) j = Some r \<longrightarrow>
           sv_id r = j \<and> r \<in> set (rulesFor g (sv_selector r))))"

text \<open>An example registry: two rules for the section \<open>hero\<close>, on the default selector.\<close>

definition twoRules :: registry where
  "twoRules =
     snd (addSectionVisibility ''id-2'' ''hero'' \<lparr> p_selector = None, p_scrollDepth = None, p_viewTime = None, p_customEvent = None \<rparr>
       (snd (addSectionVisibility ''id-1'' ''hero''
          \<lparr> p_selector = None, p_scrollDepth = Some (Fin 50), p_viewTime = None, p_customEvent = Some ''hero_view'' \<rparr>
          \<lparr> sectionVisibility = [], selectorVisibilityMap = [] \<rparr>)))"

section \<open>Descriptions used in the statements\<close>

text \<open>The events on the data layer so far (none when it is not yet an array).\<close>

definition dataLayerList :: "VnsGaUtil \<Rightarrow> payload list" where
  "dataLayerList s = (case dataLayer s of None \<Rightarrow> [] | Some l \<Rightarrow> l)"



text \<open>
  The (element, selector) pairs that the initial scan visits, in order; a
  description of the scan used in the proofs, not part of the source.
\<close>

definition scanPairs :: "(string \<Rightarrow> elem list) \<Rightarrow> string list \<Rightarrow> (elem \<times> string) list" where
  "scanPairs qsa selectors = concat (map (\<lambda>selector. map (\<lambda>section. (section, selector)) (qsa selector)) selectors)"

section \<open>Example inputs\<close>

text \<open>
  The rules of the repository's example page, a page with one \<open>hero\<close> element (1)
  and one \<open>how-it-works\<close> element (2), and the instance after registration and after
  \<open>trackSectionVisibility\<close>.
\<close>

definition heroRule :: PartialSettings where
  "heroRule = \<lparr> p_selector = None, p_scrollDepth = Some (Fin 50), p_viewTime = Some (Fin 3000),
                 p_customEvent = Some ''hero_view'' \<rparr>"

definition howItWorks1 :: PartialSettings where
  "howItWorks1 = \<lparr> p_selector = None, p_scrollDepth = Some (Fin 20), p_viewTime = Some (Fin 1000),
                    p_customEvent = Some ''how-it-works_view'' \<rparr>"

definition howItWorks2 :: PartialSettings where
  "howItWorks2 = \<lparr> p_selector = None, p_scrollDepth = Some (Fin 60), p_viewTime = Some (Fin 2000),
                    p_customEvent = Some ''how-it-works_view_2000'' \<rparr>"

definition examplePage :: "string \<Rightarrow> elem list" where
  "examplePage selector =
     (if selector = defaultSelector ''hero'' then [1]
      else if selector = defaultSelector ''how-it-works'' then [2]
      else [])"

definition exampleRegistered :: VnsGaUtil where
  "exampleRegistered =
     snd (addSectionVisibility ''rule-3'' ''how-it-works'' howItWorks2
       (snd (addSectionVisibility ''rule-2'' ''how-it-works'' howItWorks1
         (snd (addSectionVisibility ''rule-1'' ''hero'' heroRule (newVnsGaUtil (Some ''G-1'') []))))))"

definition exampleInstance :: VnsGaUtil where
  "exampleInstance = trackSectionVisibility examplePage exampleRegistered"

text \<open>
  The \<open>how-it-works\<close> element enters at the bottom edge of an 800 pixel viewport with
  a tenth of it visible; later samples see it fully in view.
\<close>

definition enterAtBottom :: IntersectionObserverEntry where
  "enterAtBottom =
     \<lparr> e_target = 2, e_isIntersecting = True, e_intersectionRatio = 1 / 10, e_randomUUID = ''episode-1'',
       e_rect = \<lparr> r_top = 790, r_bottom = 890, r_height = 100 \<rparr>, e_now = 0 \<rparr>"

definition fullyInView :: "int \<Rightarrow> string \<Rightarrow> sample" where
  "fullyInView t k = \<lparr> f_rect = \<lparr> r_top = 0, r_bottom = 100, r_height = 100 \<rparr>, f_innerHeight = 800, f_now = t \<rparr>"

definition doubleFireRun :: VnsGaUtil where
  "doubleFireRun =
     frameCallback (fullyInView 2600)
       (frameCallback (fullyInView 2500)
         (timerFire 0 (timerFire 0 (observerCallback [enterAtBottom] exampleInstance))))"

text \<open>An element of height 0 enters the viewport and leaves it five seconds later.\<close>

definition zeroHeightEnter :: IntersectionObserverEntry where
  "zeroHeightEnter =
     \<lparr> e_target = 1, e_isIntersecting = True, e_intersectionRatio = 1, e_randomUUID = ''episode-1'',
       e_rect = \<lparr> r_top = 100, r_bottom = 100, r_height = 0 \<rparr>, e_now = 0 \<rparr>"

definition zeroHeightExit :: IntersectionObserverEntry where
  "zeroHeightExit =
     \<lparr> e_target = 1, e_isIntersecting = False, e_intersectionRatio = 0, e_randomUUID = ''unused'',
       e_rect = \<lparr> r_top = - 50, r_bottom = - 50, r_height = 0 \<rparr>, e_now = 5000 \<rparr>"

text \<open>Settings with explicit zero thresholds, and with negative ones.\<close>

definition zeroThresholds :: PartialSettings where
  "zeroThresholds = \<lparr> p_selector = None, p_scrollDepth = Some (Fin 0), p_viewTime = Some (Fin 0),
                       p_customEvent = None \<rparr>"

definition negativeThresholds :: PartialSettings where
  "negativeThresholds = \<lparr> p_selector = None, p_scrollDepth = Some (Fin (- 10)), p_viewTime = Some (Fin (- 500)),
                           p_customEvent = None \<rparr>"

text \<open>The \<open>hero\<close> element enters fully in view and is tracked as one episode.\<close>

definition heroEnter :: IntersectionObserverEntry where
  "heroEnter =
     \<lparr> e_target = 1, e_isIntersecting = True, e_intersectionRatio = 1, e_randomUUID = ''episode-1'',
       e_rect = \<lparr> r_top = 100, r_bottom = 200, r_height = 100 \<rparr>, e_now = 0 \<rparr>"



text \<open>The \<open>hero\<close> element leaves the viewport four seconds after it entered.\<close>

definition heroExit :: IntersectionObserverEntry where
  "heroExit =
     \<lparr> e_target = 1, e_isIntersecting = False, e_intersectionRatio = 0, e_randomUUID = ''unused'',
       e_rect = \<lparr> r_top = - 150, r_bottom = - 50, r_height = 100 \<rparr>, e_now = 4000 \<rparr>"

section \<open>Properties of the registry\<close>

lemma claim_bounds: "num_or x (Fin 70) = v \<Longrightarrow> \<exists>d. claim v (Fin 0) (Fin 100) = Fin d \<and> 0 \<le> d \<and> d \<le> 100"
  by (cases x; cases v) (auto simp: claim_def Math_min_def Math_max_def num_or_def truthy_def split: if_splits)

lemma newSettings_scrollDepth_range:
  "\<exists>d. sv_scrollDepth (newSettings u sec p) = Fin d \<and> 0 \<le> d \<and> d \<le> 100"
  using claim_bounds[OF refl] by (simp add: newSettings_def)

lemma newSettings_scrollDepth_clamp:
  "p_scrollDepth p = Some (Fin x) \<Longrightarrow> x \<noteq> 0 \<Longrightarrow> sv_scrollDepth (newSettings u sec p) = Fin (min 100 (max 0 x))"
  by (auto simp: newSettings_def claim_def Math_min_def Math_max_def num_or_def truthy_def)

lemma newSettings_viewTime_floor:
  "\<not> jslt (sv_viewTime (newSettings u sec p)) (Fin 0) \<and> sv_viewTime (newSettings u sec p) \<noteq> NaN"
  apply (cases "p_viewTime p")
   apply (simp add: newSettings_def Math_max_def num_or_def)
  subgoal for v
    by (cases v) (auto simp: newSettings_def Math_max_def num_or_def truthy_def)
  done

lemma newSettings_viewTime_max:
  "p_viewTime p = Some (Fin x) \<Longrightarrow> x \<noteq> 0 \<Longrightarrow> sv_viewTime (newSettings u sec p) = Fin (max 0 x)"
  by (auto simp: newSettings_def Math_max_def num_or_def truthy_def)

lemma newSettings_eventName:
  "eventName (newSettings u sec p) = (case p_customEvent p of None \<Rightarrow> ''view_'' @ sec | Some x \<Rightarrow> if x = [] then ''view_'' @ sec else x)"
  by (simp add: newSettings_def eventName_def str_or_def split: option.splits)

lemma add_stores:
  "addSectionVisibility u sec p g = (rid, g') \<Longrightarrow>
   rid = u \<and> map_of (sectionVisibility g') u = Some (newSettings u sec p) \<and>
   rulesFor g' (sv_selector (newSettings u sec p)) = rulesFor g (sv_selector (newSettings u sec p)) @ [newSettings u sec p] \<and>
   (\<forall>j. j \<noteq> u \<longrightarrow> map_of (sectionVisibility g') j = map_of (sectionVisibility g) j)"
  by (auto simp: addSectionVisibility_def Let_def rulesFor_def update_conv')

text \<open>
  Claim C4. For every section name and every partial settings object,
  \<open>addSectionVisibility\<close> returns the id that \<open>randomUUID\<close> generated, stores the new
  rule under it (no other id is touched) and appends it to the list of its selector.
  The selector is the attribute selector \<open>[data-internal-view="section"]\<close>, with the
  section name between the double quotes, when none (or an empty one) is supplied; the scroll depth is 70 when absent and always a number in
  [0, 100], a supplied non-zero number being clamped into that interval; the view time
  is 3000 when absent and never below 0, a supplied non-zero number being floored at 0;
  and the event name the rule sends is \<open>view_\<close> followed by the section name when no
  (or an empty) custom event is supplied.
\<close>

theorem addSectionVisibility_defaults_and_clamps:
  assumes "addSectionVisibility uuid section settings g = (rid, g')"
  shows "rid = uuid \<and>
         (\<forall>j. j \<noteq> rid \<longrightarrow> map_of (sectionVisibility g') j = map_of (sectionVisibility g) j) \<and>
         (\<exists>st. map_of (sectionVisibility g') rid = Some st \<and>
               rulesFor g' (sv_selector st) = rulesFor g (sv_selector st) @ [st] \<and>
               sv_id st = rid \<and> sv_section st = section \<and>
               (p_selector settings \<in> {None, Some []} \<longrightarrow> sv_selector st =
                  ''[data-internal-view='' @ [CHR 0x22] @ section @ [CHR 0x22] @ '']'') \<and>
               (\<forall>x. p_selector settings = Some x \<and> x \<noteq> [] \<longrightarrow> sv_selector st = x) \<and>
               (p_scrollDepth settings = None \<longrightarrow> sv_scrollDepth st = Fin 70) \<and>
               (\<exists>d. sv_scrollDepth st = Fin d \<and> 0 \<le> d \<and> d \<le> 100) \<and>
               (\<forall>x. p_scrollDepth settings = Some (Fin x) \<and> x \<noteq> 0 \<longrightarrow>
                    sv_scrollDepth st = Fin (min 100 (max 0 x))) \<and>
               (p_viewTime settings = None \<longrightarrow> sv_viewTime st = Fin 3000) \<and>
               \<not> jslt (sv_viewTime st) (Fin 0) \<and> sv_viewTime st \<noteq> NaN \<and>
               (\<forall>x. p_viewTime settings = Some (Fin x) \<and> x \<noteq> 0 \<longrightarrow> sv_viewTime st = Fin (max 0 x)) \<and>
               (p_customEvent settings \<in> {None, Some []} \<longrightarrow> eventName st = ''view_'' @ section) \<and>
               (\<forall>x. p_customEvent settings = Some x \<and> x \<noteq> [] \<longrightarrow> eventName st = x))"
proof -
  let ?st = "newSettings uuid section settings"
  note a = add_stores[OF assms]
  have sel: "(p_selector settings \<in> {None, Some []} \<longrightarrow> sv_selector ?st =
                  ''[data-internal-view='' @ [CHR 0x22] @ section @ [CHR 0x22] @ '']'') \<and>
             (\<forall>x. p_selector settings = Some x \<and> x \<noteq> [] \<longrightarrow> sv_selector ?st = x)"
    by (auto simp: newSettings_def str_or_def defaultSelector_def)
  have dflt: "(p_scrollDepth settings = None \<longrightarrow> sv_scrollDepth ?st = Fin 70) \<and>
              (p_viewTime settings = None \<longrightarrow> sv_viewTime ?st = Fin 3000)"
    by (auto simp: newSettings_def num_or_def claim_def Math_min_def Math_max_def)
  have ev: "(p_customEvent settings \<in> {None, Some []} \<longrightarrow> eventName ?st = ''view_'' @ section) \<and>
            (\<forall>x. p_customEvent settings = Some x \<and> x \<noteq> [] \<longrightarrow> eventName ?st = x)"
    by (auto simp: newSettings_eventName)
  have ids: "sv_id ?st = uuid \<and> sv_section ?st = section"
    by (simp add: newSettings_def)
  have r: "rid = uuid" using a by simp
  have "map_of (sectionVisibility g') rid = Some ?st \<and>
        rulesFor g' (sv_selector ?st) = rulesFor g (sv_selector ?st) @ [?st] \<and>
        sv_id ?st = rid \<and> sv_section ?st = section \<and>
        (p_selector settings \<in> {None, Some []} \<longrightarrow> sv_selector ?st =
                  ''[data-internal-view='' @ [CHR 0x22] @ section @ [CHR 0x22] @ '']'') \<and>
        (\<forall>x. p_selector settings = Some x \<and> x \<noteq> [] \<longrightarrow> sv_selector ?st = x) \<and>
        (p_scrollDepth settings = None \<longrightarrow> sv_scrollDepth ?st = Fin 70) \<and>
        (\<exists>d. sv_scrollDepth ?st = Fin d \<and> 0 \<le> d \<and> d \<le> 100) \<and>
        (\<forall>x. p_scrollDepth settings = Some (Fin x) \<and> x \<noteq> 0 \<longrightarrow>
             sv_scrollDepth ?st = Fin (min 100 (max 0 x))) \<and>
        (p_viewTime settings = None \<longrightarrow> sv_viewTime ?st = Fin 3000) \<and>
        \<not> jslt (sv_viewTime ?st) (Fin 0) \<and> sv_viewTime ?st \<noteq> NaN \<and>
        (\<forall>x. p_viewTime settings = Some (Fin x) \<and> x \<noteq> 0 \<longrightarrow> sv_viewTime ?st = Fin (max 0 x)) \<and>
        (p_customEvent settings \<in> {None, Some []} \<longrightarrow> eventName ?st = ''view_'' @ section) \<and>
        (\<forall>x. p_customEvent settings = Some x \<and> x \<noteq> [] \<longrightarrow> eventName ?st = x)"
    using a sel dflt ev ids newSettings_scrollDepth_range[of uuid "section" settings]
      newSettings_scrollDepth_clamp[of settings _ uuid "section"]
      newSettings_viewTime_floor[of uuid "section" settings]
      newSettings_viewTime_max[of settings _ uuid "section"]
    by blast
  then have "\<exists>st. map_of (sectionVisibility g') rid = Some st \<and>
        rulesFor g' (sv_selector st) = rulesFor g (sv_selector st) @ [st] \<and>
        sv_id st = rid \<and> sv_section st = section \<and>
        (p_selector settings \<in> {None, Some []} \<longrightarrow> sv_selector st =
                  ''[data-internal-view='' @ [CHR 0x22] @ section @ [CHR 0x22] @ '']'') \<and>
        (\<forall>x. p_selector settings = Some x \<and> x \<noteq> [] \<longrightarrow> sv_selector st = x) \<and>
        (p_scrollDepth settings = None \<longrightarrow> sv_scrollDepth st = Fin 70) \<and>
        (\<exists>d. sv_scrollDepth st = Fin d \<and> 0 \<le> d \<and> d \<le> 100) \<and>
        (\<forall>x. p_scrollDepth settings = Some (Fin x) \<and> x \<noteq> 0 \<longrightarrow>
             sv_scrollDepth st = Fin (min 100 (max 0 x))) \<and>
        (p_viewTime settings = None \<longrightarrow> sv_viewTime st = Fin 3000) \<and>
        \<not> jslt (sv_viewTime st) (Fin 0) \<and> sv_viewTime st \<noteq> NaN \<and>
        (\<forall>x. p_viewTime settings = Some (Fin x) \<and> x \<noteq> 0 \<longrightarrow> sv_viewTime st = Fin (max 0 x)) \<and>
        (p_customEvent settings \<in> {None, Some []} \<longrightarrow> eventName st = ''view_'' @ section) \<and>
        (\<forall>x. p_customEvent settings = Some x \<and> x \<noteq> [] \<longrightarrow> eventName st = x)"
    by (rule exI[of _ ?st])
  then show ?thesis using a by simp
qed

theorem addSectionVisibility_defaults_and_clamps_witness:
  "\<exists>st. map_of (sectionVisibility (snd (addSectionVisibility ''id-1'' ''x''
            \<lparr> p_selector = None, p_scrollDepth = Some (Fin 150), p_viewTime = Some (Fin (- 500)),
              p_customEvent = None \<rparr>
            \<lparr> sectionVisibility = [], selectorVisibilityMap = [] \<rparr>))) ''id-1'' = Some st \<and>
        sv_selector st = ''[data-internal-view='' @ [CHR 0x22] @ ''x'' @ [CHR 0x22] @ '']'' \<and> sv_scrollDepth st = Fin 100 \<and>
        sv_viewTime st = Fin 0 \<and> eventName st = ''view_x''"
proof -
  let ?p = "\<lparr> p_selector = None, p_scrollDepth = Some (Fin 150), p_viewTime = Some (Fin (- 500)),
              p_customEvent = None \<rparr>"
  let ?g = "\<lparr> sectionVisibility = [], selectorVisibilityMap = [] \<rparr>"
  have h: "addSectionVisibility ''id-1'' ''x'' ?p ?g =
           (''id-1'', snd (addSectionVisibility ''id-1'' ''x'' ?p ?g))"
    by (simp add: addSectionVisibility_def Let_def)
  show ?thesis
    using addSectionVisibility_defaults_and_clamps[OF h] by fastforce
qed

lemma rulesFor_add:
  "rulesFor (snd (addSectionVisibility u sec p g)) sel =
     (if sel = sv_selector (newSettings u sec p) then rulesFor g sel @ [newSettings u sec p] else rulesFor g sel)"
  by (simp add: addSectionVisibility_def Let_def rulesFor_def update_conv')

lemma sectionVisibility_add:
  "map_of (sectionVisibility (snd (addSectionVisibility u sec p g))) j =
     (if j = u then Some (newSettings u sec p) else map_of (sectionVisibility g) j)"
  by (simp add: addSectionVisibility_def Let_def update_conv')

lemma selectors_add:
  "set (getRegisteredSelectors (snd (addSectionVisibility u sec p g))) =
     insert (sv_selector (newSettings u sec p)) (set (getRegisteredSelectors g))"
  using dom_update[of "sv_selector (newSettings u sec p)" _ "selectorVisibilityMap g"]
  by (simp add: addSectionVisibility_def Let_def getRegisteredSelectors_def)

lemma newSettings_selector_nonempty: "sv_selector (newSettings u sec p) \<noteq> []"
  by (simp add: newSettings_def str_or_def defaultSelector_def split: option.splits)

lemma newSettings_id [simp]: "sv_id (newSettings u sec p) = u"
  by (simp add: newSettings_def)

lemma wf_registry_rule:
  "wf_registry g \<Longrightarrow> r \<in> set (rulesFor g sel) \<Longrightarrow>
   sv_selector r = sel \<and> map_of (sectionVisibility g) (sv_id r) = Some r"
  by (simp add: wf_registry_def)

lemma wf_registry_entry:
  "wf_registry g \<Longrightarrow> map_of (sectionVisibility g) j = Some r \<Longrightarrow>
   sv_id r = j \<and> r \<in> set (rulesFor g (sv_selector r))"
  by (simp add: wf_registry_def)

lemma wf_registry_distinct: "wf_registry g \<Longrightarrow> distinct (map sv_id (rulesFor g sel))"
  by (simp add: wf_registry_def)

lemma wf_registry_selectors: "wf_registry g \<Longrightarrow> [] \<notin> set (getRegisteredSelectors g)"
  by (simp add: wf_registry_def)

lemma wf_registry_add:
  assumes wf: "wf_registry g" and fresh: "map_of (sectionVisibility g) u = None"
  shows "wf_registry (snd (addSectionVisibility u sec p g))"
proof -
  let ?st = "newSettings u sec p"
  let ?g = "snd (addSectionVisibility u sec p g)"
  have old: "sv_id r \<noteq> u" if "r \<in> set (rulesFor g sel)" for sel r
    using wf_registry_rule[OF wf that] fresh by auto
  have rules: "r = ?st \<and> sel = sv_selector ?st \<or> r \<in> set (rulesFor g sel)"
    if "r \<in> set (rulesFor ?g sel)" for sel r
    using that by (auto simp: rulesFor_add split: if_splits)
  have sub: "r \<in> set (rulesFor ?g sel)" if "r \<in> set (rulesFor g sel)" for sel r
    using that by (auto simp: rulesFor_add)
  have c1: "[] \<notin> set (getRegisteredSelectors ?g)"
    using wf_registry_selectors[OF wf] newSettings_selector_nonempty[of u sec p]
    by (simp add: selectors_add)
  have c2: "distinct (map sv_id (rulesFor ?g sel))" for sel
    using wf_registry_distinct[OF wf, of sel] old[of _ sel]
    by (auto simp: rulesFor_add)
  have c3: "sv_selector r = sel \<and> map_of (sectionVisibility ?g) (sv_id r) = Some r"
    if "r \<in> set (rulesFor ?g sel)" for sel r
  proof -
    from rules[OF that] show ?thesis
    proof
      assume "r = ?st \<and> sel = sv_selector ?st"
      then show ?thesis by (simp add: sectionVisibility_add)
    next
      assume a: "r \<in> set (rulesFor g sel)"
      show ?thesis using wf_registry_rule[OF wf a] old[OF a] by (simp add: sectionVisibility_add)
    qed
  qed
  have c4: "sv_id r = j \<and> r \<in> set (rulesFor ?g (sv_selector r))"
    if "map_of (sectionVisibility ?g) j = Some r" for j r
  proof (cases "j = u")
    case True
    then have "r = ?st" using that by (simp add: sectionVisibility_add)
    then show ?thesis using True by (simp add: rulesFor_add)
  next
    case False
    then have "map_of (sectionVisibility g) j = Some r" using that by (simp add: sectionVisibility_add)
    from wf_registry_entry[OF wf this] show ?thesis using sub by blast
  qed
  show ?thesis
    unfolding wf_registry_def using c1 c2 c3 c4 by blast
qed

lemma rulesFor_drop:
  "map_of (sectionVisibility g) i = Some st \<Longrightarrow>
   rulesFor (dropSectionVisibility i g) sel =
     (if sel = sv_selector st then filter (\<lambda>s. sv_id s \<noteq> i) (rulesFor g sel) else rulesFor g sel)"
  by (auto simp: dropSectionVisibility_def Let_def rulesFor_def update_conv' split: option.splits)

lemma sectionVisibility_drop:
  "map_of (sectionVisibility (dropSectionVisibility i g)) j =
     (if j = i then None else map_of (sectionVisibility g) j)"
  by (auto simp: dropSectionVisibility_def Let_def delete_conv' split: option.splits)

lemma dropSectionVisibility_absent:
  "map_of (sectionVisibility g) i = None \<Longrightarrow> dropSectionVisibility i g = g"
  by (simp add: dropSectionVisibility_def)

lemma selectors_drop:
  "set (getRegisteredSelectors (dropSectionVisibility i g)) = set (getRegisteredSelectors g)"
proof -
  have "\<And>sel l x. map_of (selectorVisibilityMap g) sel = Some l \<Longrightarrow>
          fst ` set (AList.update sel x (selectorVisibilityMap g)) = fst ` set (selectorVisibilityMap g)"
  proof -
    fix sel l x assume "map_of (selectorVisibilityMap g) sel = Some l"
    then have "sel \<in> fst ` set (selectorVisibilityMap g)"
      by (metis map_of_SomeD fst_conv image_eqI)
    then show "fst ` set (AList.update sel x (selectorVisibilityMap g)) = fst ` set (selectorVisibilityMap g)"
      by (auto simp: dom_update)
  qed
  then show ?thesis
    by (auto simp: dropSectionVisibility_def Let_def getRegisteredSelectors_def split: option.splits)
qed

lemma wf_registry_drop:
  assumes wf: "wf_registry g"
  shows "wf_registry (dropSectionVisibility i g)"
proof (cases "map_of (sectionVisibility g) i")
  case None
  then show ?thesis using wf by (simp add: dropSectionVisibility_absent)
next
  case (Some st)
  let ?g = "dropSectionVisibility i g"
  note rd = rulesFor_drop[OF Some]
  have sub: "r \<in> set (rulesFor g sel)" if "r \<in> set (rulesFor ?g sel)" for sel r
    using that by (auto simp: rd split: if_splits)
  have c1: "[] \<notin> set (getRegisteredSelectors ?g)"
    using wf_registry_selectors[OF wf] by (simp add: selectors_drop)
  have c2: "distinct (map sv_id (rulesFor ?g sel))" for sel
    using wf_registry_distinct[OF wf, of sel] by (auto simp: rd distinct_map_filter)
  have c3: "sv_selector r = sel \<and> map_of (sectionVisibility ?g) (sv_id r) = Some r"
    if a: "r \<in> set (rulesFor ?g sel)" for sel r
  proof -
    have m: "sv_selector r = sel" "map_of (sectionVisibility g) (sv_id r) = Some r"
      using wf_registry_rule[OF wf sub[OF a]] by simp_all
    have "sv_id r \<noteq> i"
    proof
      assume e: "sv_id r = i"
      then have "r = st" using m Some by simp
      then have "sel = sv_selector st" using m by simp
      then show False using a e by (simp add: rd)
    qed
    then show ?thesis using m by (simp add: sectionVisibility_drop)
  qed
  have c4: "sv_id r = j \<and> r \<in> set (rulesFor ?g (sv_selector r))"
    if "map_of (sectionVisibility ?g) j = Some r" for j r
  proof -
    have ji: "j \<noteq> i" and mj: "map_of (sectionVisibility g) j = Some r"
      using that by (auto simp: sectionVisibility_drop split: if_splits)
    from wf_registry_entry[OF wf mj] show ?thesis using ji by (auto simp: rd)
  qed
  show ?thesis
    unfolding wf_registry_def using c1 c2 c3 c4 by blast
qed

lemma dropped_rule_in_no_list:
  assumes wf: "wf_registry g" and r: "r \<in> set (rulesFor (dropSectionVisibility i g) sel)"
  shows "sv_id r \<noteq> i"
proof
  assume e: "sv_id r = i"
  have "map_of (sectionVisibility (dropSectionVisibility i g)) (sv_id r) = Some r"
    using wf_registry_rule[OF wf_registry_drop[OF wf, of i] r] by simp
  then show False using e by (simp add: sectionVisibility_drop)
qed


text \<open>
  Claim C7. \<open>dropSectionVisibility\<close> with an id that the id map does not hold returns
  the instance as it is (the source has no error path). With an id it holds, the id is
  gone from the id map and every other id keeps its rule; the list of the rule's
  selector loses exactly the rules with that id and every other list is unchanged, so
  no rule with that id is left in that list, nor, in a registry built through the API,
  in any list.
\<close>

theorem dropSectionVisibility_absent_noop_present_removed:
  "(map_of (sectionVisibility g) i = None \<longrightarrow> dropSectionVisibility i g = g) \<and>
   (\<forall>st. map_of (sectionVisibility g) i = Some st \<longrightarrow>
      map_of (sectionVisibility (dropSectionVisibility i g)) i = None \<and>
      (\<forall>j. j \<noteq> i \<longrightarrow>
         map_of (sectionVisibility (dropSectionVisibility i g)) j = map_of (sectionVisibility g) j) \<and>
      rulesFor (dropSectionVisibility i g) (sv_selector st) =
        filter (\<lambda>s. sv_id s \<noteq> i) (rulesFor g (sv_selector st)) \<and>
      (\<forall>sel. sel \<noteq> sv_selector st \<longrightarrow> rulesFor (dropSectionVisibility i g) sel = rulesFor g sel) \<and>
      (\<forall>r \<in> set (rulesFor (dropSectionVisibility i g) (sv_selector st)). sv_id r \<noteq> i) \<and>
      (wf_registry g \<longrightarrow> (\<forall>sel. \<forall>r \<in> set (rulesFor (dropSectionVisibility i g) sel). sv_id r \<noteq> i)))"
proof (intro conjI allI impI)
  assume "map_of (sectionVisibility g) i = None"
  then show "dropSectionVisibility i g = g" by (rule dropSectionVisibility_absent)
next
  show "map_of (sectionVisibility (dropSectionVisibility i g)) i = None"
    by (simp add: sectionVisibility_drop)
next
  fix j assume "j \<noteq> i"
  then show "map_of (sectionVisibility (dropSectionVisibility i g)) j = map_of (sectionVisibility g) j"
    by (simp add: sectionVisibility_drop)
next
  fix st assume "map_of (sectionVisibility g) i = Some st"
  then show "rulesFor (dropSectionVisibility i g) (sv_selector st) =
        filter (\<lambda>s. sv_id s \<noteq> i) (rulesFor g (sv_selector st))"
    by (simp add: rulesFor_drop)
next
  fix st sel assume "map_of (sectionVisibility g) i = Some st" "sel \<noteq> sv_selector st"
  then show "rulesFor (dropSectionVisibility i g) sel = rulesFor g sel"
    by (simp add: rulesFor_drop)
next
  fix st assume "map_of (sectionVisibility g) i = Some st"
  then show "\<forall>r \<in> set (rulesFor (dropSectionVisibility i g) (sv_selector st)). sv_id r \<noteq> i"
    by (simp add: rulesFor_drop)
next
  fix sel assume "wf_registry g"
  then show "\<forall>r \<in> set (rulesFor (dropSectionVisibility i g) sel). sv_id r \<noteq> i"
    using dropped_rule_in_no_list by blast
qed

lemma wf_registry_empty: "wf_registry \<lparr> sectionVisibility = [], selectorVisibilityMap = [] \<rparr>"
  by (simp add: wf_registry_def getRegisteredSelectors_def rulesFor_def)

lemma wf_twoRules: "wf_registry twoRules"
  unfolding twoRules_def
  by (intro wf_registry_add wf_registry_empty) (simp_all add: sectionVisibility_add)

theorem dropSectionVisibility_absent_noop_present_removed_witness:
  "dropSectionVisibility ''id-9'' twoRules = twoRules \<and>
   map_of (sectionVisibility (dropSectionVisibility ''id-1'' twoRules)) ''id-1'' = None \<and>
   map (sv_id) (rulesFor (dropSectionVisibility ''id-1'' twoRules) (defaultSelector ''hero'')) = [''id-2''] \<and>
   (\<forall>sel. filter (\<lambda>r. sv_id r = ''id-1'') (rulesFor (dropSectionVisibility ''id-1'' twoRules) sel) = [])"
proof -
  have a: "map_of (sectionVisibility twoRules) ''id-9'' = None"
    by (simp add: twoRules_def sectionVisibility_add)
  have b: "map_of (sectionVisibility twoRules) ''id-1'' = Some (newSettings ''id-1'' ''hero''
          \<lparr> p_selector = None, p_scrollDepth = Some (Fin 50), p_viewTime = None, p_customEvent = Some ''hero_view'' \<rparr>)"
    by (simp add: twoRules_def sectionVisibility_add)
  have c: "map sv_id (rulesFor twoRules (defaultSelector ''hero'')) = [''id-1'', ''id-2'']"
    by code_simp
  have d: "sv_selector (newSettings ''id-1'' ''hero''
          \<lparr> p_selector = None, p_scrollDepth = Some (Fin 50), p_viewTime = None, p_customEvent = Some ''hero_view'' \<rparr>) = defaultSelector ''hero''"
    by (simp add: newSettings_def str_or_def)
  have e: "map sv_id (filter (\<lambda>s. sv_id s \<noteq> k) xs) = filter (\<lambda>x. x \<noteq> k) (map sv_id xs)" for k and xs :: "SectionVisibilitySettings list"
    by (induction xs) auto
  note T = dropSectionVisibility_absent_noop_present_removed[of twoRules "''id-1''"]
  note U = T[THEN conjunct2, rule_format, OF b, unfolded d]
  note U1 = U[THEN conjunct1]
  note U3 = U[THEN conjunct2, THEN conjunct2, THEN conjunct1]
  note U6 = U[THEN conjunct2, THEN conjunct2, THEN conjunct2, THEN conjunct2, THEN conjunct2, rule_format, OF wf_twoRules]
  have t1: "dropSectionVisibility ''id-9'' twoRules = twoRules"
    by (rule dropSectionVisibility_absent_noop_present_removed[of twoRules "''id-9''", THEN conjunct1, rule_format, OF a])
  have t3: "map sv_id (rulesFor (dropSectionVisibility ''id-1'' twoRules) (defaultSelector ''hero'')) = [''id-2'']"
    unfolding U3 e c by simp
  have t4: "\<forall>sel. \<forall>r \<in> set (rulesFor (dropSectionVisibility ''id-1'' twoRules) sel). sv_id r \<noteq> ''id-1''"
    using U6 by blast
  have t5: "\<forall>sel. filter (\<lambda>r. sv_id r = ''id-1'') (rulesFor (dropSectionVisibility ''id-1'' twoRules) sel) = []"
    using t4 by (simp add: filter_empty_conv)
  show ?thesis using t1 U1 t3 t5 by blast
qed

lemma newSettings_zero_scrollDepth:
  "sv_scrollDepth (newSettings u sec p) = Fin 0 \<longleftrightarrow> (\<exists>v. p_scrollDepth p = Some v \<and> jslt v (Fin 0))"
proof (cases "p_scrollDepth p")
  case None
  then show ?thesis by (simp add: newSettings_def num_or_def claim_def Math_min_def Math_max_def)
next
  case (Some v)
  then show ?thesis
    by (cases v) (auto simp: newSettings_def num_or_def claim_def Math_min_def Math_max_def truthy_def)
qed

lemma newSettings_zero_viewTime:
  "sv_viewTime (newSettings u sec p) = Fin 0 \<longleftrightarrow> (\<exists>v. p_viewTime p = Some v \<and> jslt v (Fin 0))"
proof (cases "p_viewTime p")
  case None
  then show ?thesis by (simp add: newSettings_def num_or_def Math_max_def)
next
  case (Some v)
  then show ?thesis
    by (cases v) (auto simp: newSettings_def num_or_def Math_max_def truthy_def)
qed

lemma newSettings_explicit_zero:
  "(p_scrollDepth p = Some (Fin 0) \<longrightarrow> sv_scrollDepth (newSettings u sec p) = Fin 70) \<and>
   (p_viewTime p = Some (Fin 0) \<longrightarrow> sv_viewTime (newSettings u sec p) = Fin 3000)"
  by (simp add: newSettings_def num_or_def truthy_def claim_def Math_min_def Math_max_def)

text \<open>
  Claim C9, amended. An explicit 0 for \<open>scrollDepth\<close> or \<open>viewTime\<close> is replaced by the
  default (70, 3000). The stored scroll depth is 0 exactly when a negative number (or
  \<open>-Infinity\<close>) was supplied, and so is the stored view time: a zero threshold cannot
  be configured by passing 0, and is configured by passing any negative value.
\<close>

theorem explicit_zero_replaced_negative_gives_zero:
  assumes "addSectionVisibility uuid section settings g = (rid, g')"
  shows "\<exists>st. map_of (sectionVisibility g') rid = Some st \<and>
           (p_scrollDepth settings = Some (Fin 0) \<longrightarrow> sv_scrollDepth st = Fin 70) \<and>
           (p_viewTime settings = Some (Fin 0) \<longrightarrow> sv_viewTime st = Fin 3000) \<and>
           (sv_scrollDepth st = Fin 0 \<longleftrightarrow> (\<exists>v. p_scrollDepth settings = Some v \<and> jslt v (Fin 0))) \<and>
           (sv_viewTime st = Fin 0 \<longleftrightarrow> (\<exists>v. p_viewTime settings = Some v \<and> jslt v (Fin 0)))"
proof -
  have "map_of (sectionVisibility g') rid = Some (newSettings uuid section settings)"
    using add_stores[OF assms] by simp
  then show ?thesis
    using newSettings_explicit_zero[of settings uuid "section"]
      newSettings_zero_scrollDepth[of uuid "section" settings]
      newSettings_zero_viewTime[of uuid "section" settings]
    by blast
qed

theorem explicit_zero_replaced_negative_gives_zero_witness:
  "map_option sv_scrollDepth
     (map_of (sectionVisibility (snd (addSectionVisibility ''rule-1'' ''x'' zeroThresholds
                                        (newVnsGaUtil None [])))) ''rule-1'') = Some (Fin 70) \<and>
   map_option sv_viewTime
     (map_of (sectionVisibility (snd (addSectionVisibility ''rule-1'' ''x'' zeroThresholds
                                        (newVnsGaUtil None [])))) ''rule-1'') = Some (Fin 3000)"
proof -
  have h: "addSectionVisibility ''rule-1'' ''x'' zeroThresholds (newVnsGaUtil None []) =
           (''rule-1'', snd (addSectionVisibility ''rule-1'' ''x'' zeroThresholds (newVnsGaUtil None [])))"
    by (simp add: addSectionVisibility_def Let_def)
  have z: "p_scrollDepth zeroThresholds = Some (Fin 0)" "p_viewTime zeroThresholds = Some (Fin 0)"
    by (simp_all add: zeroThresholds_def)
  from explicit_zero_replaced_negative_gives_zero[OF h] z show ?thesis
    by auto
qed

text \<open>
  Against claim C9 as stated (a zero threshold cannot be configured through the public
  API): \<open>scrollDepth: -10\<close> and \<open>viewTime: -500\<close> register a rule whose two thresholds
  are 0.
\<close>

theorem zero_threshold_configured_by_negative_value:
  "map_option sv_scrollDepth
     (map_of (sectionVisibility (snd (addSectionVisibility ''rule-1'' ''x'' negativeThresholds
                                        (newVnsGaUtil None [])))) ''rule-1'') = Some (Fin 0) \<and>
   map_option sv_viewTime
     (map_of (sectionVisibility (snd (addSectionVisibility ''rule-1'' ''x'' negativeThresholds
                                        (newVnsGaUtil None [])))) ''rule-1'') = Some (Fin 0)"
  by code_simp

section \<open>Runs of the engine on failing inputs\<close>

text \<open>
  Claim C1 (every rule's event is emitted at most once per episode) does not hold of
  the scroll path. The run: the two \<open>how-it-works\<close> rules (20 percent after 1000 ms,
  60 percent after 2000 ms) are registered, the element enters at the bottom edge with
  a tenth of it visible, both timers expire without effect (the depth is 10), and two
  scroll samples at 2500 ms and 2600 ms see the element fully in view. In the first
  sample both rules fire, and since each writes the list read before the loop plus its
  own id, the fired-rule list ends as the second rule's id alone; the second sample
  sends the first rule's event again, in the same episode.
\<close>

theorem scroll_path_emits_rule_twice_in_one_episode:
  "dataLayer (timerFire 0 (timerFire 0 (observerCallback [enterAtBottom] exampleInstance))) = None \<and>
   timers (timerFire 0 (timerFire 0 (observerCallback [enterAtBottom] exampleInstance))) = [] \<and>
   map fst (sectionMap doubleFireRun) = [''episode-1''] \<and>
   dataLayer doubleFireRun =
     Some [SectionEvent ''how-it-works_view'' ''how-it-works'' (Fin 2500) (Fin 100),
           SectionEvent ''how-it-works_view_2000'' ''how-it-works'' (Fin 2500) (Fin 100),
           SectionEvent ''how-it-works_view'' ''how-it-works'' (Fin 2600) (Fin 100)]"
  by code_simp

text \<open>
  Claim C5 (both bounds stay in [0, 100] and the terminal \<open>scroll_depth\<close> is between 0
  and 100) does not hold for an element of height 0: at entry \<open>ratioTop\<close> is \<open>0 / 0\<close>,
  both bounds are \<open>NaN\<close>, and the \<open>section_view\<close> event sent at exit carries the depth
  \<open>NaN\<close>.
\<close>

theorem zero_height_episode_reports_NaN:
  "map (\<lambda>(k, t). (td_minScrollDepth t, td_maxScrollDepth t))
       (sectionMap (observerCallback [zeroHeightEnter] exampleInstance)) = [(NaN, NaN)] \<and>
   dataLayer (observerCallback [zeroHeightEnter, zeroHeightExit] exampleInstance) =
     Some [SectionEvent ''section_view'' (defaultSelector ''hero'') (Fin 5000) NaN]"
  by code_simp

text \<open>
  Claim C6 (a rectangle of height 0 gives the depth 0, and no division by zero occurs)
  does not hold: only \<open>visibleRatio\<close> is guarded. For every rectangle of height 0 the
  division in \<open>ratioTop\<close> is by zero and the depth of the sample is \<open>NaN\<close> when the top
  is at or below the viewport's top edge, and 100 when it is above; it is never 0.
\<close>

theorem zero_height_sample_depth:
  assumes "r_height r = 0"
  shows "sampleDepth r viewportHeight = (if r_top r < 0 then Fin 100 else NaN)"
  using assms
  by (auto simp: sampleDepth_def ratioTop_def visibleRatio_def jsdiv_def Math_min_def Let_def)

theorem zero_height_sample_depth_witness:
  "sampleDepth \<lparr> r_top = 100, r_bottom = 100, r_height = 0 \<rparr> 800 = NaN \<and>
   sampleDepth \<lparr> r_top = - 20, r_bottom = - 20, r_height = 0 \<rparr> 800 = Fin 100"
  using zero_height_sample_depth[of "\<lparr> r_top = 100, r_bottom = 100, r_height = 0 \<rparr>" 800]
    zero_height_sample_depth[of "\<lparr> r_top = - 20, r_bottom = - 20, r_height = 0 \<rparr>" 800]
  by simp

lemma sendInternalGAEvent_cookies [simp]: "cookies (sendInternalGAEvent e s) = cookies s"
  by (simp add: sendInternalGAEvent_def)

lemma fold_sendInternalGAEvent_cookies [simp]: "cookies (fold sendInternalGAEvent es s) = cookies s"
  by (induction es arbitrary: s) simp_all

lemma sendLastSection_cookies [simp]: "cookies (sendLastSection now s) = cookies s"
proof -
  have "cookies (fold (\<lambda>x. sendInternalGAEvent (f x)) xs s) = cookies s" for f :: "SectionTrackedData \<Rightarrow> payload" and xs
    by (induction xs arbitrary: s) simp_all
  then show ?thesis by (simp add: sendLastSection_def)
qed

lemma pageAbandoned_without_handleCloseTab:
  "HandleCloseTab \<notin> set ls \<Longrightarrow> cookies (fold (runListener now) ls s) = cookies s"
  by (induction ls arbitrary: s) (auto simp: runListener_def split: listener.splits)

text \<open>
  Claim C2 (without a session cookie \<open>trackUserReturn\<close> still arms the abandonment
  handler, so the cookie is written when the page is abandoned) does not hold: the
  source returns before \<open>addEventListener\<close>. Without a session cookie the call changes
  nothing at all, and unless a handler was armed by an earlier call the abandoned page
  leaves the cookie jar as it was.
\<close>

theorem trackUserReturn_without_cookie_arms_nothing:
  assumes "readCookie (sessionKey s) s = None"
  shows "trackUserReturn toNumber now s = s \<and>
         (HandleCloseTab \<notin> set (beforeunload s) \<longrightarrow>
            cookies (pageAbandoned later (trackUserReturn toNumber now s)) = cookies s)"
  using assms by (simp add: trackUserReturn_def pageAbandoned_def pageAbandoned_without_handleCloseTab)

theorem trackUserReturn_without_cookie_arms_nothing_witness:
  "readCookie (sessionKey (newVnsGaUtil (Some ''G-1'') [])) (newVnsGaUtil (Some ''G-1'') []) = None \<and>
   beforeunload (trackUserReturn (\<lambda>v. NaN) 1000 (newVnsGaUtil (Some ''G-1'') [])) = [] \<and>
   dataLayer (trackUserReturn (\<lambda>v. NaN) 1000 (newVnsGaUtil (Some ''G-1'') [])) = None \<and>
   cookies (pageAbandoned 2000 (trackUserReturn (\<lambda>v. NaN) 1000 (newVnsGaUtil (Some ''G-1'') []))) = []"
proof -
  have h: "readCookie (sessionKey (newVnsGaUtil (Some ''G-1'') [])) (newVnsGaUtil (Some ''G-1'') []) = None"
    by code_simp
  have l: "HandleCloseTab \<notin> set (beforeunload (newVnsGaUtil (Some ''G-1'') []))"
    by (simp add: newVnsGaUtil_def)
  note T = trackUserReturn_without_cookie_arms_nothing[OF h, of "\<lambda>v. NaN" 1000 2000]
  have e: "trackUserReturn (\<lambda>v. NaN) 1000 (newVnsGaUtil (Some ''G-1'') []) = newVnsGaUtil (Some ''G-1'') []"
    using T by (rule conjunct1)
  have c: "cookies (pageAbandoned 2000 (trackUserReturn (\<lambda>v. NaN) 1000 (newVnsGaUtil (Some ''G-1'') []))) =
           cookies (newVnsGaUtil (Some ''G-1'') [])"
    using T l by blast
  have f: "beforeunload (newVnsGaUtil (Some ''G-1'') []) = []" "dataLayer (newVnsGaUtil (Some ''G-1'') []) = None"
    "cookies (newVnsGaUtil (Some ''G-1'') []) = []"
    by (simp_all add: newVnsGaUtil_def)
  show ?thesis
    using h c f unfolding e by simp
qed

section \<open>Element discovery\<close>

lemma trackSectionView_registry [simp]:
  "getRegisteredSelectors (trackSectionView e sel s) = getRegisteredSelectors s"
  by (simp add: trackSectionView_def getRegisteredSelectors_def)

lemma fold_trackSectionView:
  "fold (\<lambda>(e, sel). trackSectionView e sel) ps s =
     s\<lparr> viewSelectorAttr := viewSelectorAttr s ++ map_of (rev ps),
        observed := observed s \<union> fst ` set ps \<rparr>"
proof (induction ps arbitrary: s)
  case Nil
  show ?case by simp
next
  case (Cons p ps)
  obtain e sel where p: "p = (e, sel)" by (cases p)
  have m: "(viewSelectorAttr s)(e \<mapsto> sel) ++ map_of (rev ps) = viewSelectorAttr s ++ map_of (rev (p # ps))"
    by (rule ext) (simp add: p map_add_def split: option.splits)
  have o: "insert e (observed s) \<union> fst ` set ps = observed s \<union> fst ` set (p # ps)"
    by (simp add: p)
  have "fold (\<lambda>(e, sel). trackSectionView e sel) (p # ps) s =
        fold (\<lambda>(e, sel). trackSectionView e sel) ps (trackSectionView e sel s)"
    by (simp add: p)
  also have "\<dots> = (trackSectionView e sel s)
        \<lparr> viewSelectorAttr := viewSelectorAttr (trackSectionView e sel s) ++ map_of (rev ps),
          observed := observed (trackSectionView e sel s) \<union> fst ` set ps \<rparr>"
    by (rule Cons.IH)
  also have "\<dots> = s\<lparr> viewSelectorAttr := (viewSelectorAttr s)(e \<mapsto> sel) ++ map_of (rev ps),
                       observed := insert e (observed s) \<union> fst ` set ps \<rparr>"
    by (simp add: trackSectionView_def)
  finally show ?case by (simp only: m o)
qed

lemma initialScan_pairs:
  "fold (\<lambda>selector t. fold (\<lambda>section. trackSectionView section selector) (qsa selector) t) sels s =
   fold (\<lambda>(e, sel). trackSectionView e sel) (scanPairs qsa sels) s"
proof (induction sels arbitrary: s)
  case Nil
  show ?case by (simp add: scanPairs_def)
next
  case (Cons sel sels)
  have "fold (\<lambda>section. trackSectionView section sel) es t =
        fold (\<lambda>(e, sel). trackSectionView e sel) (map (\<lambda>section. (section, sel)) es) t" for es t
    by (induction es arbitrary: t) simp_all
  then show ?case using Cons.IH by (simp add: scanPairs_def)
qed

lemma initialScan_eq:
  "initialScan qsa s =
     s\<lparr> viewSelectorAttr := viewSelectorAttr s ++ map_of (rev (scanPairs qsa (getRegisteredSelectors s))),
        observed := observed s \<union> fst ` set (scanPairs qsa (getRegisteredSelectors s)) \<rparr>"
  by (simp add: initialScan_def initialScan_pairs fold_trackSectionView)

lemma initVisibilityTracking_selectorMap [simp]:
  "selectorVisibilityMap (initVisibilityTracking s) = selectorVisibilityMap s"
  by (simp add: initVisibilityTracking_def initScrollDepthTracking_def initSectionVisibilityTracking_def
      onScroll_def)

lemma initVisibilityTracking_flag [simp]:
  "isVisibilityTrackingInitialized (initVisibilityTracking s)"
  by (simp add: initVisibilityTracking_def)

lemma trackSectionVisibility_eq:
  "trackSectionVisibility qsa s =
     (initVisibilityTracking s)
       \<lparr> mutationObservers := Suc (mutationObservers (initVisibilityTracking s)),
         viewSelectorAttr := viewSelectorAttr (initVisibilityTracking s) ++
                               map_of (rev (scanPairs qsa (getRegisteredSelectors s))),
         observed := observed (initVisibilityTracking s) \<union>
                       fst ` set (scanPairs qsa (getRegisteredSelectors s)) \<rparr>"
  by (simp add: trackSectionVisibility_def Let_def initialScan_eq getRegisteredSelectors_def)

lemma trackSectionVisibility_flag: "isVisibilityTrackingInitialized (trackSectionVisibility qsa s)"
  by (simp add: trackSectionVisibility_eq)

lemma trackSectionVisibility_selectors:
  "getRegisteredSelectors (trackSectionVisibility qsa s) = getRegisteredSelectors s"
  by (simp add: trackSectionVisibility_eq getRegisteredSelectors_def)

lemma map_add_twice: "(m ++ f) ++ f = m ++ f"
  by (rule ext) (simp add: map_add_def split: option.splits)

lemma trackSectionVisibility_second_call:
  "trackSectionVisibility qsa (trackSectionVisibility qsa s) =
     (trackSectionVisibility qsa s)
       \<lparr> mutationObservers := Suc (mutationObservers (trackSectionVisibility qsa s)) \<rparr>"
proof -
  let ?t = "trackSectionVisibility qsa s"
  let ?f = "map_of (rev (scanPairs qsa (getRegisteredSelectors s)))"
  let ?o = "fst ` set (scanPairs qsa (getRegisteredSelectors s))"
  have i: "initVisibilityTracking ?t = ?t"
    using trackSectionVisibility_flag[of qsa s] by (simp add: initVisibilityTracking_def)
  have a: "viewSelectorAttr ?t ++ ?f = viewSelectorAttr ?t"
    by (simp add: trackSectionVisibility_eq map_add_twice)
  have o: "observed ?t \<union> ?o = observed ?t"
    by (simp add: trackSectionVisibility_eq Un_assoc)
  have e: "trackSectionVisibility qsa ?t =
          ?t\<lparr> mutationObservers := Suc (mutationObservers ?t),
               viewSelectorAttr := viewSelectorAttr ?t ++ ?f,
               observed := observed ?t \<union> ?o \<rparr>"
    by (subst trackSectionVisibility_eq) (simp only: i trackSectionVisibility_selectors)
  have r: "x\<lparr> mutationObservers := n, viewSelectorAttr := viewSelectorAttr x, observed := observed x \<rparr> =
           x\<lparr> mutationObservers := n \<rparr>" for x :: VnsGaUtil and n
    by simp
  show ?thesis
    unfolding e a o by (rule r)
qed

lemma initVisibilityTracking_once:
  "\<not> isVisibilityTrackingInitialized s \<Longrightarrow>
   intersectionObservers (initVisibilityTracking s) = Suc (intersectionObservers s) \<and>
   scrollListeners (initVisibilityTracking s) = Suc (scrollListeners s) \<and>
   resizeListeners (initVisibilityTracking s) = Suc (resizeListeners s) \<and>
   beforeunload (initVisibilityTracking s) = beforeunload s @ [SendLastSection]"
  by (simp add: initVisibilityTracking_def initScrollDepthTracking_def initSectionVisibilityTracking_def
      onScroll_def)

text \<open>
  Claim C8, amended. The intersection observer, the scroll and resize listeners and the
  unload flush are set up by the first call of \<open>trackSectionVisibility\<close> and by no
  later one (the flag guards them). Every call, however, attaches one more mutation
  observer and scans the page again: a second call on the same page with the same
  registry leaves the instance as the first call left it except that the number of
  mutation observers has grown by one.
\<close>

theorem trackSectionVisibility_idempotent_up_to_mutation_observer:
  "trackSectionVisibility qsa (trackSectionVisibility qsa s) =
     (trackSectionVisibility qsa s)
       \<lparr> mutationObservers := Suc (mutationObservers (trackSectionVisibility qsa s)) \<rparr> \<and>
   mutationObservers (trackSectionVisibility qsa s) = Suc (mutationObservers s) \<and>
   isVisibilityTrackingInitialized (trackSectionVisibility qsa s) \<and>
   (isVisibilityTrackingInitialized s \<longrightarrow>
      intersectionObservers (trackSectionVisibility qsa s) = intersectionObservers s \<and>
      scrollListeners (trackSectionVisibility qsa s) = scrollListeners s \<and>
      resizeListeners (trackSectionVisibility qsa s) = resizeListeners s \<and>
      beforeunload (trackSectionVisibility qsa s) = beforeunload s) \<and>
   (\<not> isVisibilityTrackingInitialized s \<longrightarrow>
      intersectionObservers (trackSectionVisibility qsa s) = Suc (intersectionObservers s) \<and>
      scrollListeners (trackSectionVisibility qsa s) = Suc (scrollListeners s) \<and>
      resizeListeners (trackSectionVisibility qsa s) = Suc (resizeListeners s) \<and>
      beforeunload (trackSectionVisibility qsa s) = beforeunload s @ [SendLastSection])"
proof (intro conjI impI)
  show "trackSectionVisibility qsa (trackSectionVisibility qsa s) =
     (trackSectionVisibility qsa s)
       \<lparr> mutationObservers := Suc (mutationObservers (trackSectionVisibility qsa s)) \<rparr>"
    by (rule trackSectionVisibility_second_call)
  show "isVisibilityTrackingInitialized (trackSectionVisibility qsa s)"
    by (rule trackSectionVisibility_flag)
  show "mutationObservers (trackSectionVisibility qsa s) = Suc (mutationObservers s)"
    by (simp add: trackSectionVisibility_eq initVisibilityTracking_def initScrollDepthTracking_def
        initSectionVisibilityTracking_def onScroll_def)
next
  assume i: "isVisibilityTrackingInitialized s"
  then have "initVisibilityTracking s = s" by (simp add: initVisibilityTracking_def)
  then show "intersectionObservers (trackSectionVisibility qsa s) = intersectionObservers s"
    "scrollListeners (trackSectionVisibility qsa s) = scrollListeners s"
    "resizeListeners (trackSectionVisibility qsa s) = resizeListeners s"
    "beforeunload (trackSectionVisibility qsa s) = beforeunload s"
    by (simp_all add: trackSectionVisibility_eq)
next
  assume n: "\<not> isVisibilityTrackingInitialized s"
  show "intersectionObservers (trackSectionVisibility qsa s) = Suc (intersectionObservers s)"
    "scrollListeners (trackSectionVisibility qsa s) = Suc (scrollListeners s)"
    "resizeListeners (trackSectionVisibility qsa s) = Suc (resizeListeners s)"
    "beforeunload (trackSectionVisibility qsa s) = beforeunload s @ [SendLastSection]"
    using initVisibilityTracking_once[OF n] by (simp_all add: trackSectionVisibility_eq)
qed

theorem trackSectionVisibility_idempotent_up_to_mutation_observer_witness:
  "isVisibilityTrackingInitialized exampleInstance \<and>
   intersectionObservers exampleInstance = 1 \<and>
   intersectionObservers (trackSectionVisibility examplePage exampleInstance) = 1 \<and>
   scrollListeners (trackSectionVisibility examplePage exampleInstance) = 1 \<and>
   resizeListeners (trackSectionVisibility examplePage exampleInstance) = 1 \<and>
   beforeunload (trackSectionVisibility examplePage exampleInstance) = [SendLastSection] \<and>
   observed (trackSectionVisibility examplePage exampleInstance) = observed exampleInstance \<and>
   viewSelectorAttr (trackSectionVisibility examplePage exampleInstance) = viewSelectorAttr exampleInstance"
proof -
  note T = trackSectionVisibility_idempotent_up_to_mutation_observer[of examplePage exampleRegistered,
      folded exampleInstance_def]
  have n: "\<not> isVisibilityTrackingInitialized exampleRegistered"
    "intersectionObservers exampleRegistered = 0" "scrollListeners exampleRegistered = 0"
    "resizeListeners exampleRegistered = 0" "beforeunload exampleRegistered = []"
    by (simp_all add: exampleRegistered_def addSectionVisibility_def Let_def newVnsGaUtil_def)
  have e: "trackSectionVisibility examplePage exampleInstance =
           exampleInstance\<lparr> mutationObservers := Suc (mutationObservers exampleInstance) \<rparr>"
    using T by (rule conjunct1)
  have f: "isVisibilityTrackingInitialized exampleInstance"
    using T by blast
  have g: "intersectionObservers exampleInstance = 1" "scrollListeners exampleInstance = 1"
    "resizeListeners exampleInstance = 1" "beforeunload exampleInstance = [SendLastSection]"
    using T n by simp_all
  show ?thesis
    unfolding e using f g by simp
qed

text \<open>
  Against claim C8 as stated (mutation observation is initialised exactly once): after
  the second call two mutation observers are attached.
\<close>

theorem second_call_attaches_second_mutation_observer:
  "mutationObservers (trackSectionVisibility examplePage exampleRegistered) = 1 \<and>
   mutationObservers (trackSectionVisibility examplePage (trackSectionVisibility examplePage exampleRegistered)) = 2"
  by code_simp

section \<open>Removing a rule while the engine runs\<close>

lemma dataLayerList_send [simp]: "dataLayerList (sendInternalGAEvent e s) = dataLayerList s @ [e]"
  by (simp add: dataLayerList_def sendInternalGAEvent_def)

lemma dataLayerList_fold_send [simp]:
  "dataLayerList (fold sendInternalGAEvent es s) = dataLayerList s @ es"
  by (induction es arbitrary: s) simp_all



lemma dataLayerList_sectionMap [simp]: "dataLayerList (s\<lparr> sectionMap := m \<rparr>) = dataLayerList s"
  by (simp add: dataLayerList_def)



lemma dropSectionVisibility_engine [simp]:
  "timers (dropSectionVisibility i s) = timers s"
  "sectionMap (dropSectionVisibility i s) = sectionMap s"
  "dataLayer (dropSectionVisibility i s) = dataLayer s"
  "viewSelectorAttr (dropSectionVisibility i s) = viewSelectorAttr s"
  "viewIdAttr (dropSectionVisibility i s) = viewIdAttr s"
  by (simp_all add: dropSectionVisibility_def Let_def split: option.splits)






lemma observerEntry_registry [simp]:
  "sectionVisibility (observerEntry e s) = sectionVisibility s"
  "selectorVisibilityMap (observerEntry e s) = selectorVisibilityMap s"
  by (simp_all add: observerEntry_def Let_def sendInternalGAEvent_def split: option.splits)

lemma observerCallback_registry [simp]:
  "sectionVisibility (observerCallback es s) = sectionVisibility s"
  "selectorVisibilityMap (observerCallback es s) = selectorVisibilityMap s"
  unfolding observerCallback_def by (induction es arbitrary: s) simp_all

lemma trackSectionVisibility_registry [simp]:
  "sectionVisibility (trackSectionVisibility qsa s) = sectionVisibility s"
  "selectorVisibilityMap (trackSectionVisibility qsa s) = selectorVisibilityMap s"
  by (simp_all add: trackSectionVisibility_eq initVisibilityTracking_def initScrollDepthTracking_def
      initSectionVisibilityTracking_def onScroll_def)











section \<open>A selector whose last rule was removed\<close>

lemma scanPairs_mem: "(e, sel) \<in> set (scanPairs qsa sels) \<longleftrightarrow> sel \<in> set sels \<and> e \<in> set (qsa sel)"
  by (auto simp: scanPairs_def)

lemma dataLayerList_trackSectionVisibility [simp]:
  "dataLayerList (trackSectionVisibility qsa s) = dataLayerList s"
  by (simp add: dataLayerList_def trackSectionVisibility_eq initVisibilityTracking_def
      initScrollDepthTracking_def initSectionVisibilityTracking_def onScroll_def)

lemma dataLayerList_drop [simp]: "dataLayerList (dropSectionVisibility i s) = dataLayerList s"
  by (simp add: dataLayerList_def)

lemma trackSectionVisibility_tags:
  assumes "sel \<in> set (getRegisteredSelectors s)" "e \<in> set (qsa sel)"
  shows "e \<in> observed (trackSectionVisibility qsa s) \<and>
         (\<exists>tag. tag \<in> set (getRegisteredSelectors s) \<and> e \<in> set (qsa tag) \<and>
                viewSelectorAttr (trackSectionVisibility qsa s) e = Some tag)"
proof -
  let ?ps = "scanPairs qsa (getRegisteredSelectors s)"
  have m: "(e, sel) \<in> set ?ps" using assms by (simp add: scanPairs_mem)
  then have o: "e \<in> fst ` set ?ps" by force
  then have "e \<in> fst ` set (rev ?ps)" by simp
  then obtain tag where t: "map_of (rev ?ps) e = Some tag"
    by (metis map_of_eq_None_iff not_Some_eq)
  then have "(e, tag) \<in> set ?ps" using map_of_SomeD by fastforce
  then have "tag \<in> set (getRegisteredSelectors s) \<and> e \<in> set (qsa tag)"
    by (simp add: scanPairs_mem)
  moreover have "viewSelectorAttr (trackSectionVisibility qsa s) e = Some tag"
    using t by (simp add: trackSectionVisibility_eq map_add_def)
  moreover have "e \<in> observed (trackSectionVisibility qsa s)"
    using o by (simp add: trackSectionVisibility_eq)
  ultimately show ?thesis by blast
qed

lemma observerEntry_exit:
  assumes "attrOf (viewSelectorAttr u) (e_target ex) = Some tag"
      and "attrOf (viewIdAttr u) (e_target ex) = Some outId"
      and "map_of (sectionMap u) outId = Some tracked"
      and "\<not> e_isIntersecting ex"
  shows "dataLayer (observerEntry ex u) =
           Some (dataLayerList u @
                 [SectionEvent ''section_view'' tag (Fin (of_int (e_now ex - td_start tracked)))
                    (jssub (td_maxScrollDepth tracked) (td_minScrollDepth tracked))])"
  using assms by (simp add: observerEntry_def Let_def sendInternalGAEvent_def dataLayerList_def)

lemma observer_enter_then_exit:
  assumes tag: "viewSelectorAttr t (e_target en) = Some tag" "tag \<noteq> []"
      and en: "e_isIntersecting en" "e_randomUUID en \<noteq> []"
      and ex: "e_target ex = e_target en" "\<not> e_isIntersecting ex"
  shows "dataLayer (observerCallback [en, ex] t) =
           Some (dataLayerList t @
                 [SectionEvent ''section_view'' tag (Fin (of_int (e_now ex - e_now en)))
                    (jssub (Math_min (jsadd (ratioTop (e_rect en)) (Fin (e_intersectionRatio en * 100))) (Fin 100))
                           (ratioTop (e_rect en)))])"
proof -
  let ?rt = "ratioTop (e_rect en)"
  let ?tracked = "\<lparr> td_start = e_now en, td_duration = 0, td_minScrollDepth = ?rt,
                     td_maxScrollDepth = Math_min (jsadd ?rt (Fin (e_intersectionRatio en * 100))) (Fin 100),
                     td_element = e_target en, td_selector = tag, td_id = e_randomUUID en,
                     td_sentEventIds = None \<rparr>"
  let ?t1 = "t\<lparr> viewIdAttr := (viewIdAttr t)(e_target en \<mapsto> e_randomUUID en),
                 sectionMap := AList.update (e_randomUUID en) ?tracked (sectionMap t),
                 timers := timers t @ armTimers (e_randomUUID en) (rulesFor t tag) \<rparr>"
  have a: "attrOf (viewSelectorAttr t) (e_target en) = Some tag"
    using tag by (simp add: attrOf_def)
  have s1: "observerEntry en t = ?t1"
    using a en(1) by (simp add: observerEntry_def Let_def)
  have b: "attrOf (viewSelectorAttr ?t1) (e_target ex) = Some tag"
    using a ex(1) by simp
  have c: "attrOf (viewIdAttr ?t1) (e_target ex) = Some (e_randomUUID en)"
    using en(2) ex(1) by (simp add: attrOf_def)
  have d: "map_of (sectionMap ?t1) (e_randomUUID en) = Some ?tracked"
    by (simp add: update_conv')
  have l: "dataLayerList ?t1 = dataLayerList t"
    by (simp add: dataLayerList_def)
  have "dataLayer (observerEntry ex ?t1) =
          Some (dataLayerList t @
                 [SectionEvent ''section_view'' tag (Fin (of_int (e_now ex - e_now en)))
                    (jssub (Math_min (jsadd ?rt (Fin (e_intersectionRatio en * 100))) (Fin 100)) ?rt)])"
    using observerEntry_exit[OF b c d ex(2)] unfolding l by simp
  then show ?thesis
    by (simp add: observerCallback_def s1)
qed

lemma last_rule_list_emptied:
  assumes "map_of (sectionVisibility s) i = Some r"
      and "map sv_id (rulesFor s (sv_selector r)) = [i]"
  shows "map_of (selectorVisibilityMap (dropSectionVisibility i s)) (sv_selector r) = Some []"
proof -
  obtain l where l: "map_of (selectorVisibilityMap s) (sv_selector r) = Some l" "map sv_id l = [i]"
    using assms(2) by (auto simp: rulesFor_def split: option.splits)
  have "filter (\<lambda>x. sv_id x \<noteq> i) l = []"
    using l(2) by (cases l) auto
  moreover have "l \<noteq> []" using l(2) by auto
  ultimately show ?thesis
    using assms(1) l(1) by (simp add: dropSectionVisibility_def Let_def update_conv')
qed

lemma getRegisteredSelectors_drop:
  "getRegisteredSelectors (dropSectionVisibility i s) = getRegisteredSelectors s"
proof -
  have "map fst (AList.update sel x (selectorVisibilityMap s)) = map fst (selectorVisibilityMap s)"
    if "map_of (selectorVisibilityMap s) sel = Some l" for sel l x
  proof -
    have "sel \<in> set (map fst (selectorVisibilityMap s))"
      using that by (metis map_of_eq_None_iff option.distinct(1) set_map)
    then show ?thesis by (simp add: update_keys)
  qed
  then show ?thesis
    by (auto simp: dropSectionVisibility_def Let_def getRegisteredSelectors_def split: option.splits)
qed

lemma selectorVisibilityMap_drop_other:
  "map_of (sectionVisibility s) i = Some r \<Longrightarrow> sel \<noteq> sv_selector r \<Longrightarrow>
   map_of (selectorVisibilityMap (dropSectionVisibility i s)) sel = map_of (selectorVisibilityMap s) sel"
  by (auto simp: dropSectionVisibility_def Let_def update_conv' split: option.splits)

text \<open>
  Claim C10. When \<open>dropSectionVisibility\<close> removes the only rule of a selector, the
  selector stays a key of the selector index, now with the empty list, and the
  registered selectors are the same as before; the rule's id is gone from the id map,
  and no other entry of either index changes. An element matching the selector is
  therefore still observed and tagged by \<open>trackSectionVisibility\<close> (with a registered
  selector it matches), and when it enters and leaves the viewport the terminal
  \<open>section_view\<close> event is sent for it.
\<close>

theorem last_rule_dropped_selector_still_tracked:
  assumes "map_of (sectionVisibility s) i = Some r"
      and "map sv_id (rulesFor s (sv_selector r)) = [i]"
      and "[] \<notin> set (getRegisteredSelectors s)"
      and "e \<in> set (qsa (sv_selector r))"
      and "e_target en = e" and "e_isIntersecting en" and "e_randomUUID en \<noteq> []"
      and "e_target ex = e" and "\<not> e_isIntersecting ex"
  shows "map_of (selectorVisibilityMap (dropSectionVisibility i s)) (sv_selector r) = Some [] \<and>
         getRegisteredSelectors (dropSectionVisibility i s) = getRegisteredSelectors s \<and>
         sv_selector r \<in> set (getRegisteredSelectors (dropSectionVisibility i s)) \<and>
         map_of (sectionVisibility (dropSectionVisibility i s)) i = None \<and>
         (\<forall>j. j \<noteq> i \<longrightarrow>
            map_of (sectionVisibility (dropSectionVisibility i s)) j = map_of (sectionVisibility s) j) \<and>
         (\<forall>sel. sel \<noteq> sv_selector r \<longrightarrow>
            map_of (selectorVisibilityMap (dropSectionVisibility i s)) sel =
              map_of (selectorVisibilityMap s) sel) \<and>
         e \<in> observed (trackSectionVisibility qsa (dropSectionVisibility i s)) \<and>
         (\<exists>tag. tag \<in> set (getRegisteredSelectors s) \<and> e \<in> set (qsa tag) \<and>
            viewSelectorAttr (trackSectionVisibility qsa (dropSectionVisibility i s)) e = Some tag \<and>
            dataLayer (observerCallback [en, ex] (trackSectionVisibility qsa (dropSectionVisibility i s))) =
              Some (dataLayerList s @
                    [SectionEvent ''section_view'' tag (Fin (of_int (e_now ex - e_now en)))
                       (jssub (Math_min (jsadd (ratioTop (e_rect en)) (Fin (e_intersectionRatio en * 100)))
                                 (Fin 100))
                              (ratioTop (e_rect en)))]))"
proof -
  let ?d = "dropSectionVisibility i s"
  let ?t = "trackSectionVisibility qsa ?d"
  have c1: "map_of (selectorVisibilityMap ?d) (sv_selector r) = Some []"
    by (rule last_rule_list_emptied[OF assms(1,2)])
  have c2: "getRegisteredSelectors ?d = getRegisteredSelectors s"
    by (rule getRegisteredSelectors_drop)
  have key: "sv_selector r \<in> set (getRegisteredSelectors ?d)"
    using c1 by (metis getRegisteredSelectors_def map_of_eq_None_iff option.distinct(1) set_map)
  have c4: "map_of (sectionVisibility ?d) i = None"
    by (simp add: sectionVisibility_drop)
  have c5: "\<forall>j. j \<noteq> i \<longrightarrow> map_of (sectionVisibility ?d) j = map_of (sectionVisibility s) j"
    by (simp add: sectionVisibility_drop)
  have c6: "\<forall>sel. sel \<noteq> sv_selector r \<longrightarrow>
            map_of (selectorVisibilityMap ?d) sel = map_of (selectorVisibilityMap s) sel"
    using selectorVisibilityMap_drop_other[OF assms(1)] by blast
  from trackSectionVisibility_tags[where qsa = qsa, OF key assms(4)]
  obtain tag where obs: "e \<in> observed ?t"
    and tag: "tag \<in> set (getRegisteredSelectors ?d)" "e \<in> set (qsa tag)" "viewSelectorAttr ?t e = Some tag"
    by blast
  have ne: "tag \<noteq> []" using tag(1) assms(3) c2 by auto
  have ev: "dataLayer (observerCallback [en, ex] ?t) =
              Some (dataLayerList s @
                    [SectionEvent ''section_view'' tag (Fin (of_int (e_now ex - e_now en)))
                       (jssub (Math_min (jsadd (ratioTop (e_rect en)) (Fin (e_intersectionRatio en * 100)))
                                 (Fin 100))
                              (ratioTop (e_rect en)))])"
    using observer_enter_then_exit[of ?t en tag ex] tag(3) ne assms(5-9) by simp
  show ?thesis
    using c1 c2 key c4 c5 c6 obs tag ev unfolding c2 by blast
qed

theorem last_rule_dropped_selector_still_tracked_witness:
  "map_of (selectorVisibilityMap (dropSectionVisibility ''rule-1'' exampleRegistered))
     (defaultSelector ''hero'') = Some [] \<and>
   getRegisteredSelectors (dropSectionVisibility ''rule-1'' exampleRegistered) =
     [defaultSelector ''hero'', defaultSelector ''how-it-works''] \<and>
   1 \<in> observed (trackSectionVisibility examplePage (dropSectionVisibility ''rule-1'' exampleRegistered)) \<and>
   dataLayer (observerCallback [heroEnter, heroExit]
                (trackSectionVisibility examplePage (dropSectionVisibility ''rule-1'' exampleRegistered))) =
     Some [SectionEvent ''section_view'' (defaultSelector ''hero'') (Fin 4000) (Fin 100)]"
proof -
  let ?r = "newSettings ''rule-1'' ''hero'' heroRule"
  have sel: "sv_selector ?r = defaultSelector ''hero''"
    by (simp add: newSettings_def heroRule_def str_or_def)
  have a1: "map_of (sectionVisibility exampleRegistered) ''rule-1'' = Some ?r"
    by (simp add: exampleRegistered_def sectionVisibility_add)
  have a2: "map sv_id (rulesFor exampleRegistered (sv_selector ?r)) = [''rule-1'']"
    unfolding sel by code_simp
  have g: "getRegisteredSelectors exampleRegistered = [defaultSelector ''hero'', defaultSelector ''how-it-works'']"
    by code_simp
  have a3: "[] \<notin> set (getRegisteredSelectors exampleRegistered)"
    unfolding g by (simp add: defaultSelector_def)
  have a4: "1 \<in> set (examplePage (sv_selector ?r))"
    unfolding sel by (simp add: examplePage_def)
  have en: "e_target heroEnter = 1" "e_isIntersecting heroEnter" "e_randomUUID heroEnter \<noteq> []"
    by (simp_all add: heroEnter_def)
  have ex: "e_target heroExit = 1" "\<not> e_isIntersecting heroExit"
    by (simp_all add: heroExit_def)
  note T = last_rule_dropped_selector_still_tracked[where qsa = examplePage, OF a1 a2 a3 a4 en ex, unfolded sel g]
  have only: "tag = defaultSelector ''hero''"
    if "tag \<in> set [defaultSelector ''hero'', defaultSelector ''how-it-works'']" "1 \<in> set (examplePage tag)" for tag
    using that by (auto simp: examplePage_def defaultSelector_def)
  have d: "dataLayerList exampleRegistered = []"
    by code_simp
  have v: "jssub (Math_min (jsadd (ratioTop (e_rect heroEnter)) (Fin (e_intersectionRatio heroEnter * 100))) (Fin 100))
                 (ratioTop (e_rect heroEnter)) = Fin 100"
    by code_simp
  have w: "Fin (of_int (e_now heroExit - e_now heroEnter)) = Fin 4000"
    by (simp add: heroExit_def heroEnter_def)
  from T obtain tag where
    t: "tag \<in> set [defaultSelector ''hero'', defaultSelector ''how-it-works'']" "1 \<in> set (examplePage tag)"
       "dataLayer (observerCallback [heroEnter, heroExit]
                (trackSectionVisibility examplePage (dropSectionVisibility ''rule-1'' exampleRegistered))) =
        Some (dataLayerList exampleRegistered @
                    [SectionEvent ''section_view'' tag (Fin (of_int (e_now heroExit - e_now heroEnter)))
                       (jssub (Math_min (jsadd (ratioTop (e_rect heroEnter)) (Fin (e_intersectionRatio heroEnter * 100)))
                                 (Fin 100))
                              (ratioTop (e_rect heroEnter)))])"
    by blast
  have tg: "tag = defaultSelector ''hero''" using only[OF t(1,2)] .
  show ?thesis
    using T t(3) unfolding tg d v w by simp
qed

section \<open>The scroll-depth bounds of an element with a positive height\<close>

text \<open>
  Away from the division by a zero height the bounds behave as the data model says (in
  the exact arithmetic of this model).
  At entry, for an element of positive height that has not been scrolled entirely
  past, the lower bound is at least 0, the upper bound at most 100 and the lower bound
  does not exceed the upper one. A scroll sample on a positive height only widens the
  interval, inside [0, 100]: the lower bound does not grow, the upper bound does not
  shrink. And the depth sent at exit is the width of the interval.
\<close>

lemma toFixed2_nonneg:
  assumes "0 \<le> x"
  shows "\<exists>y. toFixed2 (Fin x) = Fin y \<and> 0 \<le> y"
proof (cases "10 ^ 21 \<le> \<bar>x\<bar>")
  case True
  then have "toFixed2 (Fin x) = Fin x" by simp
  then show ?thesis using assms by blast
next
  case False
  then have "toFixed2 (Fin x) = Fin (of_int \<lfloor>x * 100 + 1 / 2\<rfloor> / 100)"
    using assms by simp
  moreover have "(0::real) \<le> of_int \<lfloor>x * 100 + 1 / 2\<rfloor> / 100"
    using assms by simp
  ultimately show ?thesis by blast
qed

lemma toFixed2_percent:
  assumes "0 \<le> x" "x \<le> 100"
  shows "\<exists>y. toFixed2 (Fin x) = Fin y \<and> 0 \<le> y \<and> y \<le> 100"
proof -
  have small: "\<not> 10 ^ 21 \<le> \<bar>x\<bar>" using assms by simp
  have "x * 100 + 1 / 2 < 10001" using assms by simp
  then have "\<lfloor>x * 100 + 1 / 2\<rfloor> < 10001" by (simp add: floor_less_iff)
  then have up: "real_of_int \<lfloor>x * 100 + 1 / 2\<rfloor> / 100 \<le> 100" by simp
  have lo: "(0::real) \<le> of_int \<lfloor>x * 100 + 1 / 2\<rfloor> / 100" using assms by simp
  have "toFixed2 (Fin x) = Fin (of_int \<lfloor>x * 100 + 1 / 2\<rfloor> / 100)"
    using small assms by simp
  then show ?thesis using up lo by blast
qed

lemma ratioTop_positive_height:
  assumes "0 < r_height r"
  shows "\<exists>y. ratioTop r = Fin y \<and> 0 \<le> y \<and> (- r_top r \<le> r_height r \<longrightarrow> y \<le> 100)"
proof -
  let ?q = "max 0 (- r_top r) / r_height r"
  have rt: "ratioTop r = toFixed2 (Fin (?q * 100))"
    using assms by (simp add: ratioTop_def jsdiv_def Let_def)
  have q0: "0 \<le> ?q" using assms by simp
  then have x0: "0 \<le> ?q * 100" by (intro mult_nonneg_nonneg) simp_all
  show ?thesis
  proof (cases "- r_top r \<le> r_height r")
    case True
    then have "max 0 (- r_top r) \<le> r_height r" using assms by simp
    then have "?q \<le> 1" using assms by (simp add: divide_le_eq_1)
    then have "?q * 100 \<le> 1 * 100" by (rule mult_right_mono) simp
    then have "?q * 100 \<le> 100" by (simp only: mult_1)
    from toFixed2_percent[OF x0 this] show ?thesis unfolding rt by blast
  next
    case False
    from toFixed2_nonneg[OF x0] show ?thesis unfolding rt using False by blast
  qed
qed

lemma visibleRatio_nonneg: "0 \<le> visibleRatio r vh"
proof -
  have "0 \<le> Math_round x" if "0 \<le> x" for x
    using that by (simp add: Math_round_def)
  then show ?thesis
    by (simp add: visibleRatio_def Let_def)
qed

lemma sampleDepth_positive_height:
  assumes "0 < r_height r"
  shows "\<exists>d. sampleDepth r vh = Fin d \<and> 0 \<le> d \<and> d \<le> 100"
proof -
  obtain y where y: "ratioTop r = Fin y" "0 \<le> y"
    using ratioTop_positive_height[OF assms] by blast
  have "sampleDepth r vh = Fin (min (y + visibleRatio r vh) 100)"
    by (simp add: sampleDepth_def y Math_min_def min_def)
  then show ?thesis using y(2) visibleRatio_nonneg[of r vh] by simp
qed

lemma fireRules_bounds:
  "td_minScrollDepth (fst (fireRules settings sent sv d (sec, out))) = td_minScrollDepth sec \<and>
   td_maxScrollDepth (fst (fireRules settings sent sv d (sec, out))) = td_maxScrollDepth sec"
  by (induction settings arbitrary: sec out) simp_all

lemma entry_bounds_positive_height:
  assumes "viewSelectorAttr s (e_target entry) = Some tag" "tag \<noteq> []" "e_isIntersecting entry"
      and "0 < r_height (e_rect entry)" "- r_top (e_rect entry) \<le> r_height (e_rect entry)"
      and "0 \<le> e_intersectionRatio entry"
  shows "\<exists>sec lo hi. map_of (sectionMap (observerEntry entry s)) (e_randomUUID entry) = Some sec \<and>
           td_minScrollDepth sec = Fin lo \<and> td_maxScrollDepth sec = Fin hi \<and>
           0 \<le> lo \<and> lo \<le> hi \<and> hi \<le> 100"
proof -
  obtain y where y: "ratioTop (e_rect entry) = Fin y" "0 \<le> y" "y \<le> 100"
    using ratioTop_positive_height[OF assms(4)] assms(5) by blast
  have a: "attrOf (viewSelectorAttr s) (e_target entry) = Some tag"
    using assms(1,2) by (simp add: attrOf_def)
  have m: "Math_min (Fin (y + e_intersectionRatio entry * 100)) (Fin 100) =
           Fin (min (y + e_intersectionRatio entry * 100) 100)"
    by (simp add: Math_min_def min_def)
  have "y \<le> min (y + e_intersectionRatio entry * 100) 100"
    "min (y + e_intersectionRatio entry * 100) 100 \<le> 100"
    using y(3) assms(6) by simp_all
  then show ?thesis
    using a assms(3) y by (simp add: observerEntry_def Let_def update_conv' m)
qed

lemma scroll_widens_positive_height:
  assumes "viewSelectorAttr s (td_element sec) = Some tag" "tag \<noteq> []"
      and "0 < r_height (f_rect env)"
      and "td_minScrollDepth sec = Fin lo" "td_maxScrollDepth sec = Fin hi"
      and "0 \<le> lo" "lo \<le> hi" "hi \<le> 100"
  shows "\<exists>sec' lo' hi'. map_of (sectionMap (handleElementScroll env sec s)) (td_id sec) = Some sec' \<and>
           td_minScrollDepth sec' = Fin lo' \<and> td_maxScrollDepth sec' = Fin hi' \<and>
           0 \<le> lo' \<and> lo' \<le> lo \<and> hi \<le> hi' \<and> hi' \<le> 100"
proof -
  obtain y where y: "ratioTop (f_rect env) = Fin y" "0 \<le> y"
    using ratioTop_positive_height[OF assms(3)] by blast
  obtain d where d: "sampleDepth (f_rect env) (f_innerHeight env) = Fin d" "0 \<le> d" "d \<le> 100"
    using sampleDepth_positive_height[OF assms(3)] by blast
  have a: "attrOf (viewSelectorAttr s) (td_element sec) = Some tag"
    using assms(1,2) by (simp add: attrOf_def)
  have mn: "Math_min (Fin lo) (Fin y) = Fin (min lo y)" by (simp add: Math_min_def min_def)
  have mx: "Math_max (Fin hi) (Fin d) = Fin (max hi d)" by (simp add: Math_max_def max_def)
  have "map_of (sectionMap (handleElementScroll env sec s)) (td_id sec) =
          Some (fst (fireRules (rulesFor s tag) (sentIdsOf sec)
                  (jssub (Fin (max hi d)) (Fin (min lo y))) (f_now env - td_start sec)
                  (sec\<lparr> td_minScrollDepth := Fin (min lo y), td_maxScrollDepth := Fin (max hi d) \<rparr>, [])))"
    using a by (simp add: handleElementScroll_def Let_def update_conv' y d assms(4,5) mn mx sentIdsOf_def)
  moreover have "0 \<le> min lo y" "min lo y \<le> lo" "hi \<le> max hi d" "max hi d \<le> 100"
    using assms(6,8) y(2) d(3) by simp_all
  ultimately show ?thesis
    by (simp add: fireRules_bounds)
qed

lemma exit_depth_is_width:
  assumes "viewSelectorAttr s (e_target ex) = Some tag" "tag \<noteq> []"
      and "viewIdAttr s (e_target ex) = Some outId" "outId \<noteq> []"
      and "map_of (sectionMap s) outId = Some tracked" "\<not> e_isIntersecting ex"
      and "td_minScrollDepth tracked = Fin lo" "td_maxScrollDepth tracked = Fin hi"
  shows "dataLayer (observerEntry ex s) =
           Some (dataLayerList s @
                 [SectionEvent ''section_view'' tag (Fin (of_int (e_now ex - td_start tracked))) (Fin (hi - lo))])"
proof -
  have a: "attrOf (viewSelectorAttr s) (e_target ex) = Some tag"
    "attrOf (viewIdAttr s) (e_target ex) = Some outId"
    using assms(1-4) by (simp_all add: attrOf_def)
  show ?thesis
    using observerEntry_exit[OF a assms(5,6)] by (simp add: assms(7,8) jssub_def)
qed

end
